theory Spec2Isabelle
  imports Complex_Main
begin

section \<open>Go values used by the dialogue pipeline\<close>

text \<open>
  Go strings are byte sequences, so a Go \<^verbatim>\<open>string\<close> is a \<^typ>\<open>string\<close> (a list of
  8-bit characters), \<^verbatim>\<open>len\<close> is \<^const>\<open>length\<close> and the slice \<^verbatim>\<open>s[:i]\<close> is
  \<^term>\<open>take i s\<close>. Go's \<^verbatim>\<open>int\<close> is modelled by \<^typ>\<open>int\<close> for frame counts, byte
  counts and milliseconds, which stay far from 64-bit overflow; the \<^verbatim>\<open>int64\<close> sequence
  number of the memory store is computed with its wrap-around written out. A run-time
  panic is a value of \<open>go_panic\<close>.
\<close>

datatype go_panic = DivideByZero | NilDereference | SliceOutOfRange

text \<open>Go's integer quotient truncates toward zero and panics on a zero divisor.\<close>

definition tquot :: "int \<Rightarrow> int \<Rightarrow> int" where
  "tquot a b = sgn a * sgn b * (\<bar>a\<bar> div \<bar>b\<bar>)"

definition go_quot :: "int \<Rightarrow> int \<Rightarrow> go_panic + int" where
  "go_quot a b = (if b = 0 then Inl DivideByZero else Inr (tquot a b))"

subsection \<open>Messages of the graph library\<close>

text \<open>
  \<^verbatim>\<open>schema.Message\<close>, \<^verbatim>\<open>schema.ToolCall\<close> and \<^verbatim>\<open>schema.RoleType\<close> belong to the graph
  library the repository imports. \<^verbatim>\<open>RoleType\<close> is a string type; the fields below are
  the ones the repository reads or writes.
\<close>

type_synonym RoleType = string

definition schema_Assistant :: RoleType where "schema_Assistant = ''assistant''"
definition schema_Tool :: RoleType where "schema_Tool = ''tool''"
definition schema_User :: RoleType where "schema_User = ''user''"

record FunctionCall =
  Name :: string
  Arguments :: string

record ToolCall =
  ID :: string
  Type :: string
  Function :: FunctionCall

record ChatMessagePart =
  PartType :: string
  Text :: string

record Message =
  Role :: RoleType
  Content :: string
  MultiContent :: "ChatMessagePart list"
  ToolCalls :: "ToolCall list"
  ToolCallID :: string

text \<open>Node names: \<^verbatim>\<open>eino.NodeLLM\<close> of \<^verbatim>\<open>node_names.go\<close> and the library's \<^verbatim>\<open>compose.END\<close>.\<close>

definition NodeLLM :: string where "NodeLLM = ''llm''"
definition compose_END :: string where "compose_END = ''end''"

section \<open>The list branch after ToolCallResult\<close>

text \<open>
  \<^verbatim>\<open>msg.Role == schema.Tool && len(msg.Content) >= 6 && msg.Content[:6] == "[STOP]"\<close>
\<close>

definition stopMarked :: "Message \<Rightarrow> bool" where
  "stopMarked msg \<longleftrightarrow>
     Role msg = schema_Tool \<and> 6 \<le> length (Content msg) \<and> take 6 (Content msg) = ''[STOP]''"

text \<open>
  The \<^verbatim>\<open>for _, msg := range input\<close> loop of \<^verbatim>\<open>afterToolCallBranchCondition\<close> with its
  two flags, followed by the decision after the loop. The input is a slice of pointers;
  a nil pointer is \<^term>\<open>None\<close> and is skipped. The error result is nil on every path,
  so only the node name is returned.
\<close>

fun toolBranchLoop :: "Message option list \<Rightarrow> bool \<Rightarrow> bool \<Rightarrow> string" where
  "toolBranchLoop [] hasToolCall hasToolResult =
     (if hasToolCall then NodeLLM
      else if hasToolResult then NodeLLM
      else compose_END)"
| "toolBranchLoop (None # input) hasToolCall hasToolResult =
     toolBranchLoop input hasToolCall hasToolResult"
| "toolBranchLoop (Some msg # input) hasToolCall hasToolResult =
     (if stopMarked msg then compose_END
      else toolBranchLoop input
             (if ToolCalls msg \<noteq> [] then True else hasToolCall)
             (if Role msg = schema_Tool then True else hasToolResult))"

definition afterToolCallBranchCondition :: "Message option list \<Rightarrow> string" where
  "afterToolCallBranchCondition input = toolBranchLoop input False False"

text \<open>\<^verbatim>\<open>branchCondition\<close> of the stream variant of the graph has the same body.\<close>

definition branchCondition :: "Message option list \<Rightarrow> string" where
  "branchCondition input = toolBranchLoop input False False"

section \<open>The ToolCallResult node\<close>

text \<open>
  \<^verbatim>\<open>toolCallResultHandler\<close> of the list variant of the graph. \<open>mcpTools\<close> is the map
  \<^verbatim>\<open>mcp.GetToolsByDeviceId\<close> returned (empty when it failed, a nil tool object counts
  as absent) and \<open>processToolCallResult\<close> is the LLM manager's method, which yields the
  processed text and the \<^verbatim>\<open>shouldStop\<close> flag. The loop looks every tool call id up
  in \<open>toolCallMap\<close>; a result whose call or tool is not found is skipped
  (\<^verbatim>\<open>continue\<close>), every other message is passed on as it is.
\<close>

fun toolCallResultLoop ::
  "(string \<rightharpoonup> 'tool) \<Rightarrow> (string \<Rightarrow> string \<Rightarrow> 'tool \<Rightarrow> string \<times> bool) \<Rightarrow>
   (string \<rightharpoonup> ToolCall) \<Rightarrow> Message option list \<Rightarrow> Message list" where
  "toolCallResultLoop mcpTools processToolCallResult toolCallMap [] = []"
| "toolCallResultLoop mcpTools processToolCallResult toolCallMap (None # input) =
     toolCallResultLoop mcpTools processToolCallResult toolCallMap input"
| "toolCallResultLoop mcpTools processToolCallResult toolCallMap (Some msg # input) =
     (if Role msg = schema_Tool \<and> ToolCallID msg \<noteq> [] then
        (case toolCallMap (ToolCallID msg) of
           None \<Rightarrow> toolCallResultLoop mcpTools processToolCallResult toolCallMap input
         | Some toolCall \<Rightarrow>
             (case mcpTools (Name (Function toolCall)) of
                None \<Rightarrow> toolCallResultLoop mcpTools processToolCallResult toolCallMap input
              | Some toolObj \<Rightarrow>
                  (case processToolCallResult (Name (Function toolCall)) (Content msg) toolObj of
                     (processedResult, shouldStop) \<Rightarrow>
                       \<lparr>Role = schema_Tool,
                        Content = (if shouldStop then ''[STOP]'' @ processedResult
                                   else processedResult),
                        MultiContent = [], ToolCalls = [],
                        ToolCallID = ToolCallID msg\<rparr>
                       # toolCallResultLoop mcpTools processToolCallResult toolCallMap input)))
      else msg # toolCallResultLoop mcpTools processToolCallResult toolCallMap input)"

text \<open>
  The handler creates \<open>toolCallMap\<close> empty (\<^verbatim>\<open>make(map[string]*schema.ToolCall)\<close>) and
  nothing stores into it before or during the loop.
\<close>

definition toolCallResultHandler ::
  "(string \<rightharpoonup> 'tool) \<Rightarrow> (string \<Rightarrow> string \<Rightarrow> 'tool \<Rightarrow> string \<times> bool) \<Rightarrow>
   Message option list \<Rightarrow> Message list" where
  "toolCallResultHandler mcpTools processToolCallResult input =
     toolCallResultLoop mcpTools processToolCallResult Map.empty input"

text \<open>The messages the loop treats as tool results: \<^verbatim>\<open>msg.Role == schema.Tool && msg.ToolCallID != ""\<close>.\<close>

definition toolResultWithID :: "Message \<Rightarrow> bool" where
  "toolResultWithID msg \<longleftrightarrow> Role msg = schema_Tool \<and> ToolCallID msg \<noteq> []"

section \<open>The stream post-handler of the LLM node\<close>

text \<open>
  The handler reads the model's output stream with \<^verbatim>\<open>out.Recv()\<close>. A stream is the
  chunks it delivers (pointers, so a chunk may be nil) and the way it ends: with
  \<^verbatim>\<open>io.EOF\<close> or with another error. \<open>ctxDone n\<close> tells whether \<^verbatim>\<open>ctx.Done()\<close> is
  closed when the loop tests it for the \<open>n\<close>-th time. Only streams that end are
  described; on a stream that never ends the handler does not return.
\<close>

datatype stream_end = EOF | RecvError string

datatype handler_error = CtxErr | StreamErr string

text \<open>
  How a call of the handler ends: it returns the reader of its pipe (given here by the
  messages the pipe holds), it returns an error, it panics, or it waits forever in
  \<^verbatim>\<open>outputWriter.Send\<close>.
\<close>

datatype 'a outcome = Returned 'a | Failed handler_error | Panicked go_panic | Blocked

record graphState =
  history :: "Message list"

text \<open>\<^verbatim>\<open>var finalMsg schema.Message\<close>: the zero value.\<close>

definition zeroMessage :: Message where
  "zeroMessage = \<lparr>Role = [], Content = [], MultiContent = [], ToolCalls = [], ToolCallID = []\<rparr>"

text \<open>
  The body of \<^verbatim>\<open>if msg.Role == schema.Assistant { ... }\<close>. Appending a nil or empty
  tool-call slice changes nothing, so the test \<^verbatim>\<open>msg.ToolCalls != nil\<close> needs no case
  of its own.
\<close>

definition accumulate :: "Message \<Rightarrow> Message \<Rightarrow> Message" where
  "accumulate finalMsg msg =
     (if Role msg = schema_Assistant then
        (if Content msg \<noteq> [] then finalMsg\<lparr>Content := Content finalMsg @ Content msg\<rparr>
         else finalMsg)
        \<lparr>ToolCalls := ToolCalls finalMsg @ ToolCalls msg\<rparr>
      else finalMsg)"

text \<open>
  The pipe is made by \<^verbatim>\<open>schema.Pipe[*schema.Message](10)\<close>: it buffers ten items. Its
  reader is handed out only when the handler returns, so nothing is read from the pipe
  while the loop runs, and a \<^verbatim>\<open>Send\<close> that finds ten items buffered never completes.
\<close>

definition pipeCapacity :: nat where
  "pipeCapacity = 10"

text \<open>
  The \<^verbatim>\<open>for\<close> loop: \<open>n\<close> counts the iterations, \<open>piped\<close> is what has been sent to the
  pipe. On \<^verbatim>\<open>io.EOF\<close> the aggregate is appended to the history when it has text or
  tool calls, with its role set to assistant. Reading \<^verbatim>\<open>msg.Role\<close> of a nil chunk
  panics.
\<close>

fun streamPostLoop ::
  "(nat \<Rightarrow> bool) \<Rightarrow> nat \<Rightarrow> Message option list \<Rightarrow> stream_end \<Rightarrow> Message \<Rightarrow> Message list \<Rightarrow>
   graphState \<Rightarrow> graphState \<times> Message list outcome" where
  "streamPostLoop ctxDone n [] ending finalMsg piped state =
     (if ctxDone n then (state, Failed CtxErr)
      else (case ending of
              EOF \<Rightarrow>
                (if Content finalMsg \<noteq> [] \<or> ToolCalls finalMsg \<noteq> []
                 then state\<lparr>history := history state @ [finalMsg\<lparr>Role := schema_Assistant\<rparr>]\<rparr>
                 else state,
                 Returned piped)
            | RecvError e \<Rightarrow> (state, Failed (StreamErr e))))"
| "streamPostLoop ctxDone n (chunk # chunks) ending finalMsg piped state =
     (if ctxDone n then (state, Failed CtxErr)
      else (case chunk of
              None \<Rightarrow> (state, Panicked NilDereference)
            | Some msg \<Rightarrow>
                (if length piped < pipeCapacity
                 then streamPostLoop ctxDone (Suc n) chunks ending (accumulate finalMsg msg)
                        (piped @ [msg]) state
                 else (state, Blocked))))"

definition streamStatePostHandler ::
  "(nat \<Rightarrow> bool) \<Rightarrow> Message option list \<Rightarrow> stream_end \<Rightarrow> graphState \<Rightarrow>
   graphState \<times> Message list outcome" where
  "streamStatePostHandler ctxDone chunks ending state =
     streamPostLoop ctxDone 0 chunks ending zeroMessage [] state"

text \<open>
  For the statement of the aggregate: the text and the tool calls of the assistant
  deltas of a stream, concatenated in stream order.
\<close>

definition assistantText :: "Message list \<Rightarrow> string" where
  "assistantText deltas = concat (map Content (filter (\<lambda>m. Role m = schema_Assistant) deltas))"

definition assistantToolCalls :: "Message list \<Rightarrow> ToolCall list" where
  "assistantToolCalls deltas =
     concat (map ToolCalls (filter (\<lambda>m. Role m = schema_Assistant) deltas))"

definition aggregated :: "Message list \<Rightarrow> Message list" where
  "aggregated deltas =
     (if assistantText deltas \<noteq> [] \<or> assistantToolCalls deltas \<noteq> []
      then [\<lparr>Role = schema_Assistant, Content = assistantText deltas, MultiContent = [],
             ToolCalls = assistantToolCalls deltas, ToolCallID = []\<rparr>]
      else [])"

text \<open>
  The message appended at \<^verbatim>\<open>io.EOF\<close> when the loop starts from the aggregate \<open>f\<close> and
  then reads \<open>deltas\<close> (for the loop invariant).
\<close>

definition finish :: "Message \<Rightarrow> Message list \<Rightarrow> Message list" where
  "finish f deltas =
     (if Content f @ assistantText deltas \<noteq> [] \<or> ToolCalls f @ assistantToolCalls deltas \<noteq> []
      then [\<lparr>Role = schema_Assistant, Content = Content f @ assistantText deltas,
             MultiContent = MultiContent f,
             ToolCalls = ToolCalls f @ assistantToolCalls deltas, ToolCallID = ToolCallID f\<rparr>]
      else [])"

section \<open>The memory store: agent ids\<close>

text \<open>
  \<^verbatim>\<open>for i := len(agentID) - 1; i >= 0; i--\<close>: the second argument is \<open>i + 1\<close>, so the
  loop ends when it reaches \<open>0\<close> with both results still equal to \<open>agentID\<close>.
\<close>

fun parseAgentIDLoop :: "string \<Rightarrow> nat \<Rightarrow> string \<times> string" where
  "parseAgentIDLoop agentID 0 = (agentID, agentID)"
| "parseAgentIDLoop agentID (Suc i) =
     (if agentID ! i = CHR '':'' then (take i agentID, drop (Suc i) agentID)
      else parseAgentIDLoop agentID i)"

definition parseAgentID :: "string \<Rightarrow> string \<times> string" where
  "parseAgentID agentID = parseAgentIDLoop agentID (length agentID)"

section \<open>The memory store: messages\<close>

text \<open>
  The two tables, with the columns \<^verbatim>\<open>AddMessage\<close> fills. The struct tags declare a
  unique index on \<^verbatim>\<open>conversation_sessions.session_id\<close> and one on
  \<^verbatim>\<open>conversation_messages.message_id\<close>; the index on
  \<^verbatim>\<open>(session_id, sequence_num)\<close> is not unique. Rows are kept in insertion order.
\<close>

record ConversationSession =
  sSessionID :: string
  sDeviceID :: string
  sAgentID :: string
  sStatus :: string

record ConversationMessage =
  SessionID :: string
  DeviceID :: string
  MessageID :: string
  SequenceNum :: int
  rowRole :: string
  rowContent :: string
  rowMultiContent :: "(string \<times> string) list"
  rowToolCalls :: "ToolCall list"
  rowToolCallID :: string

record pg =
  sessions :: "ConversationSession list"
  messages :: "ConversationMessage list"

definition emptyDB :: pg where
  "emptyDB = \<lparr>sessions = [], messages = []\<rparr>"

text \<open>
  A statement sent to the database may fail for a reason of the database's own (the
  context is cancelled, the connection is lost, a column limit is exceeded) or because it
  violates a unique index. \<^verbatim>\<open>AddMessage\<close> sends four statements; \<open>db_faults\<close> says, for
  one call, which of them the database fails for a reason of its own.
\<close>

datatype pg_error = UniqueViolation | DatabaseError

record db_faults =
  sessionQueryFault :: "pg_error option"
  sessionCreateFault :: "pg_error option"
  maxQueryFault :: bool
  messageCreateFault :: "pg_error option"

definition noFaults :: db_faults where
  "noFaults = \<lparr>sessionQueryFault = None, sessionCreateFault = None, maxQueryFault = False,
               messageCreateFault = None\<rparr>"

datatype session_error = FailedToQuerySession pg_error | FailedToCreateSession pg_error

datatype memory_error = FailedToEnsureSession session_error | FailedToCreateMessage pg_error

text \<open>
  \<^verbatim>\<open>Where("session_id = ?", sessionID).First(&session)\<close>: an error other than
  \<^verbatim>\<open>gorm.ErrRecordNotFound\<close>, no record (\<open>None\<close>), or the record.
\<close>

definition querySession ::
  "pg \<Rightarrow> pg_error option \<Rightarrow> string \<Rightarrow> pg_error + ConversationSession option" where
  "querySession db fault sessionID =
     (case fault of
        Some err \<Rightarrow> Inl err
      | None \<Rightarrow> Inr (find (\<lambda>s. sSessionID s = sessionID) (sessions db)))"

text \<open>\<^verbatim>\<open>db.Create(newSession)\<close> and \<^verbatim>\<open>db.Create(message)\<close>.\<close>

definition createSession :: "pg \<Rightarrow> pg_error option \<Rightarrow> ConversationSession \<Rightarrow> pg_error + pg" where
  "createSession db fault s =
     (case fault of
        Some err \<Rightarrow> Inl err
      | None \<Rightarrow>
          (if sSessionID s \<in> sSessionID ` set (sessions db) then Inl UniqueViolation
           else Inr (db\<lparr>sessions := sessions db @ [s]\<rparr>)))"

definition createMessage :: "pg \<Rightarrow> pg_error option \<Rightarrow> ConversationMessage \<Rightarrow> pg_error + pg" where
  "createMessage db fault message =
     (case fault of
        Some err \<Rightarrow> Inl err
      | None \<Rightarrow>
          (if MessageID message \<in> MessageID ` set (messages db) then Inl UniqueViolation
           else Inr (db\<lparr>messages := messages db @ [message]\<rparr>)))"

text \<open>The record \<^verbatim>\<open>ensureSession\<close> creates.\<close>

definition newSession :: "string \<Rightarrow> string \<Rightarrow> string \<Rightarrow> ConversationSession" where
  "newSession sessionID deviceID agentID =
     \<lparr>sSessionID = sessionID, sDeviceID = deviceID, sAgentID = agentID, sStatus = ''active''\<rparr>"

text \<open>
  \<^verbatim>\<open>ensureSession\<close>: the session is looked up; when no record is found a new active
  session is created; an error of the lookup or of the creation is returned.
\<close>

definition ensureSession ::
  "pg \<Rightarrow> db_faults \<Rightarrow> string \<Rightarrow> string \<Rightarrow> string \<Rightarrow> session_error + pg" where
  "ensureSession db faults sessionID deviceID agentID =
     (case querySession db (sessionQueryFault faults) sessionID of
        Inl err \<Rightarrow> Inl (FailedToQuerySession err)
      | Inr (Some session) \<Rightarrow> Inr db
      | Inr None \<Rightarrow>
          (case createSession db (sessionCreateFault faults)
                  (newSession sessionID deviceID agentID) of
             Inl err \<Rightarrow> Inl (FailedToCreateSession err)
           | Inr db1 \<Rightarrow> Inr db1))"

text \<open>The sequence numbers stored for a session, in insertion order.\<close>

definition sessionSeqs :: "pg \<Rightarrow> string \<Rightarrow> int list" where
  "sessionSeqs db sessionID =
     map SequenceNum (filter (\<lambda>m. SessionID m = sessionID) (messages db))"

text \<open>
  \<^verbatim>\<open>Where("session_id = ?", sessionID).Select("COALESCE(MAX(sequence_num), 0)")\<close>
\<close>

definition maxSequenceNum :: "pg \<Rightarrow> string \<Rightarrow> int" where
  "maxSequenceNum db sessionID =
     (if sessionSeqs db sessionID = [] then 0 else Max (set (sessionSeqs db sessionID)))"

text \<open>
  \<^verbatim>\<open>var maxSeq int64\<close> followed by \<^verbatim>\<open>...Scan(&maxSeq)\<close>: the result of \<^verbatim>\<open>Scan\<close> is not
  looked at, so when the query fails \<open>maxSeq\<close> keeps its zero value.
\<close>

definition queryMaxSeq :: "pg \<Rightarrow> bool \<Rightarrow> string \<Rightarrow> int" where
  "queryMaxSeq db fault sessionID = (if fault then 0 else maxSequenceNum db sessionID)"

text \<open>The value of an integer expression in Go's \<^verbatim>\<open>int64\<close>: two's complement, wrapping.\<close>

definition int64 :: "int \<Rightarrow> int" where
  "int64 x = (x + 2 ^ 63) mod 2 ^ 64 - 2 ^ 63"

text \<open>
  The record \<^verbatim>\<open>AddMessage\<close> builds (\<^verbatim>\<open>message := &ConversationMessage{...}\<close> and the
  three conversions that follow it), with \<^verbatim>\<open>SequenceNum: maxSeq + 1\<close> computed in
  \<^verbatim>\<open>int64\<close>. \<open>uuid\<close> is the value \<^verbatim>\<open>uuid.New().String()\<close> yields in this call; the
  message handed in has no message id of its own.
\<close>

definition newMessage ::
  "string \<Rightarrow> string \<Rightarrow> string \<Rightarrow> int \<Rightarrow> Message \<Rightarrow> ConversationMessage" where
  "newMessage sessionID deviceID uuid maxSeq msg =
     \<lparr>SessionID = sessionID, DeviceID = deviceID, MessageID = uuid,
      SequenceNum = int64 (maxSeq + 1),
      rowRole = Role msg, rowContent = Content msg,
      rowMultiContent = map (\<lambda>c. (PartType c, Text c)) (MultiContent msg),
      rowToolCalls = ToolCalls msg,
      rowToolCallID = ToolCallID msg\<rparr>"

text \<open>
  \<^verbatim>\<open>AddMessage\<close>, run without any other statement reaching the database in between: the
  agent id is parsed, the session is ensured, the highest sequence number of the session
  is read, the record is built and inserted. The result is the error returned (\<open>None\<close> for
  nil) and the database afterwards.
\<close>

definition AddMessage ::
  "pg \<Rightarrow> db_faults \<Rightarrow> string \<Rightarrow> Message \<Rightarrow> string \<Rightarrow> memory_error option \<times> pg" where
  "AddMessage db faults agentID msg uuid =
     (case parseAgentID agentID of
        (deviceID, sessionID) \<Rightarrow>
          (case ensureSession db faults sessionID deviceID agentID of
             Inl err \<Rightarrow> (Some (FailedToEnsureSession err), db)
           | Inr db1 \<Rightarrow>
               (case createMessage db1 (messageCreateFault faults)
                       (newMessage sessionID deviceID uuid
                          (queryMaxSeq db1 (maxQueryFault faults) sessionID) msg) of
                  Inl err \<Rightarrow> (Some (FailedToCreateMessage err), db1)
                | Inr db2 \<Rightarrow> (None, db2))))"

text \<open>
  Calls of \<^verbatim>\<open>AddMessage\<close> made one after the other, each given as (agent id, message, uuid,
  faults).
\<close>

type_synonym add_call = "string \<times> Message \<times> string \<times> db_faults"

fun AddMessages :: "pg \<Rightarrow> add_call list \<Rightarrow> pg" where
  "AddMessages db [] = db"
| "AddMessages db ((agentID, msg, uuid, faults) # calls) =
     AddMessages (snd (AddMessage db faults agentID msg uuid)) calls"

text \<open>
  Calls of \<^verbatim>\<open>AddMessage\<close> running at the same time: the event handler submits every
  message to a pool of ten workers, and \<^verbatim>\<open>AddMessage\<close> opens no transaction and takes
  no lock, so the statements of two calls may reach the database in any order that keeps
  each call's own order. \<open>progress\<close> is how far a call has come; a schedule names, step
  by step, the call whose next statement runs. A step that names a call whose next
  statement is another one changes nothing.
\<close>

datatype progress =
  NotStarted | SessionNotFound | SessionEnsured | MaxRead int | Ended "memory_error option"

datatype sched_step =
  RunSessionQuery nat | RunSessionCreate nat | RunMaxQuery nat | RunMessageCreate nat

fun runStep :: "add_call list \<Rightarrow> sched_step \<Rightarrow> pg \<times> (nat \<Rightarrow> progress) \<Rightarrow> pg \<times> (nat \<Rightarrow> progress)" where
  "runStep calls (RunSessionQuery i) (db, prog) =
     (if i < length calls \<and> prog i = NotStarted then
        (case calls ! i of
           (agentID, msg, uuid, faults) \<Rightarrow>
             (case querySession db (sessionQueryFault faults) (snd (parseAgentID agentID)) of
                Inl err \<Rightarrow>
                  (db, prog(i := Ended (Some (FailedToEnsureSession (FailedToQuerySession err)))))
              | Inr None \<Rightarrow> (db, prog(i := SessionNotFound))
              | Inr (Some session) \<Rightarrow> (db, prog(i := SessionEnsured))))
      else (db, prog))"
| "runStep calls (RunSessionCreate i) (db, prog) =
     (if i < length calls \<and> prog i = SessionNotFound then
        (case calls ! i of
           (agentID, msg, uuid, faults) \<Rightarrow>
             (case createSession db (sessionCreateFault faults)
                     (newSession (snd (parseAgentID agentID)) (fst (parseAgentID agentID))
                        agentID) of
                Inl err \<Rightarrow>
                  (db, prog(i := Ended (Some (FailedToEnsureSession (FailedToCreateSession err)))))
              | Inr db1 \<Rightarrow> (db1, prog(i := SessionEnsured))))
      else (db, prog))"
| "runStep calls (RunMaxQuery i) (db, prog) =
     (if i < length calls \<and> prog i = SessionEnsured then
        (case calls ! i of
           (agentID, msg, uuid, faults) \<Rightarrow>
             (db, prog(i := MaxRead (queryMaxSeq db (maxQueryFault faults)
                                       (snd (parseAgentID agentID))))))
      else (db, prog))"
| "runStep calls (RunMessageCreate i) (db, prog) =
     (if i < length calls then
        (case prog i of
           MaxRead maxSeq \<Rightarrow>
             (case calls ! i of
                (agentID, msg, uuid, faults) \<Rightarrow>
                  (case createMessage db (messageCreateFault faults)
                          (newMessage (snd (parseAgentID agentID)) (fst (parseAgentID agentID))
                             uuid maxSeq msg) of
                     Inl err \<Rightarrow> (db, prog(i := Ended (Some (FailedToCreateMessage err))))
                   | Inr db2 \<Rightarrow> (db2, prog(i := Ended None))))
         | _ \<Rightarrow> (db, prog))
      else (db, prog))"

fun interleave ::
  "add_call list \<Rightarrow> sched_step list \<Rightarrow> pg \<times> (nat \<Rightarrow> progress) \<Rightarrow> pg \<times> (nat \<Rightarrow> progress)" where
  "interleave calls [] st = st"
| "interleave calls (s # steps) st = interleave calls steps (runStep calls s st)"

text \<open>A list of sequence numbers that is \<open>1, 2, ..., n\<close>.\<close>

definition contiguousFromOne :: "int list \<Rightarrow> bool" where
  "contiguousFromOne seqs \<longleftrightarrow> seqs = map int [1..<Suc (length seqs)]"

section \<open>TTS audio delivery\<close>

subsection \<open>Buffered channels\<close>

text \<open>
  A buffered Go channel is its queue and its capacity. \<open>trySend\<close> is the statement
  \<^verbatim>\<open>select { case ch <- x: ... default: ... }\<close>: it queues \<open>x\<close> when there is room and
  otherwise takes the \<^verbatim>\<open>default\<close> branch, leaving the channel as it was.
\<close>

record 'a chan =
  buf :: "'a list"
  cap :: nat
  closed :: bool

definition make_chan :: "nat \<Rightarrow> 'a chan" where
  "make_chan n = \<lparr>buf = [], cap = n, closed = False\<rparr>"

definition trySend :: "'a chan \<Rightarrow> 'a \<Rightarrow> bool \<times> 'a chan" where
  "trySend ch x =
     (if length (buf ch) < cap ch then (True, ch\<lparr>buf := buf ch @ [x]\<rparr>) else (False, ch))"

definition close_chan :: "'a chan \<Rightarrow> 'a chan" where
  "close_chan ch = ch\<lparr>closed := True\<rparr>"

subsection \<open>The pacer\<close>

text \<open>
  What the pacer can change: the frames written to the client with
  \<^verbatim>\<open>serverTransport.SendAudio\<close>, each with the instant (in ms) of the write, the counter
  \<^verbatim>\<open>*totalFrames\<close>, the time spent in \<^verbatim>\<open>time.Sleep\<close>, and the frames it has taken
  from its channel.
\<close>

record 'f pacer =
  clientFrames :: "('f \<times> int) list"
  totalFrames :: int
  sleptMs :: int
  takenFrames :: nat

definition pacer_start :: "'f pacer" where
  "pacer_start = \<lparr>clientFrames = [], totalFrames = 0, sleptMs = 0, takenFrames = 0\<rparr>"

text \<open>
  \<^verbatim>\<open>processFlowControl\<close> begins
  \<^verbatim>\<open>defer wg.Done()\<close>, \<^verbatim>\<open>return\<close>:
  the unconditional \<^verbatim>\<open>return\<close> in its second statement comes before the function
  reads the clock or the channel, so no statement of the pacing loop written after it
  is ever executed. The call leaves the pacer's state as it found it, whatever the
  channel holds and whatever \<open>cacheFrameCount\<close> and the frame duration are.
\<close>

definition processFlowControl :: "'f chan \<Rightarrow> int \<Rightarrow> int \<Rightarrow> 'f pacer \<Rightarrow> 'f pacer" where
  "processFlowControl flowControlChan cacheFrameCount frameDuration p = p"

subsection \<open>Ingestion\<close>

text \<open>\<^verbatim>\<open>cacheFrameCount := 120 / t.clientState.OutputAudioFormat.FrameDuration\<close>\<close>

definition cacheFrameCount :: "int \<Rightarrow> go_panic + int" where
  "cacheFrameCount frameDuration = go_quot 120 frameDuration"

datatype tts_log = MetaAudioChanFull | FlowControlChanFull

record 'f tts_state =
  metaAudioChan :: "'f chan"
  flowControlChan :: "'f chan"
  logged :: "tts_log list"
  pacerState :: "'f pacer"
  returned :: bool

text \<open>
  One pass through \<^verbatim>\<open>case frame, ok := <-audioChan\<close> with \<open>ok\<close> true: the frame is
  offered to the digital-human channel and then to the flow-control channel, each with a
  non-blocking send; a full channel is logged (debug for the first, warning for the
  second) and the frame is not queued there.
\<close>

definition dispatchFrame :: "'f tts_state \<Rightarrow> 'f \<Rightarrow> 'f tts_state" where
  "dispatchFrame st frame =
     (case trySend (metaAudioChan st) frame of
        (okMeta, meta) \<Rightarrow>
          (case trySend (flowControlChan st) frame of
             (okFlow, flow) \<Rightarrow>
               st\<lparr>metaAudioChan := meta, flowControlChan := flow,
                  logged := logged st @ (if okMeta then [] else [MetaAudioChanFull])
                                      @ (if okFlow then [] else [FlowControlChanFull])\<rparr>))"

text \<open>
  What the main loop of \<^verbatim>\<open>SendTTSAudio\<close> can observe, in order: a frame from
  \<open>audioChan\<close>, \<open>audioChan\<close> closed, the context done; and, running beside it, the
  digital-human goroutine taking the oldest frame of its channel. The pacer goroutine has
  returned, so nothing ever takes a frame from the flow-control channel.
\<close>

datatype 'f tts_event = AudioFrame 'f | AudioChanClosed | CtxDone | MetaHumanTakes

fun ingest :: "'f tts_state \<Rightarrow> 'f tts_event list \<Rightarrow> 'f tts_state" where
  "ingest st [] = st"
| "ingest st (AudioFrame frame # events) = ingest (dispatchFrame st frame) events"
| "ingest st (MetaHumanTakes # events) =
     ingest (st\<lparr>metaAudioChan := (metaAudioChan st)\<lparr>buf := tl (buf (metaAudioChan st))\<rparr>\<rparr>) events"
| "ingest st (AudioChanClosed # events) =
     st\<lparr>metaAudioChan := close_chan (metaAudioChan st),
        flowControlChan := close_chan (flowControlChan st), returned := True\<rparr>"
| "ingest st (CtxDone # events) =
     st\<lparr>metaAudioChan := close_chan (metaAudioChan st),
        flowControlChan := close_chan (flowControlChan st), returned := True\<rparr>"

text \<open>
  \<^verbatim>\<open>SendTTSAudio\<close>: the pre-roll depth (a zero frame duration panics in the division),
  the two channels of capacity 1000, the two goroutines, then the main loop. The result
  is the state reached after the given events; \<open>returned\<close> tells whether the loop has
  left through one of its two \<^verbatim>\<open>return nil\<close>.
\<close>

definition SendTTSAudio :: "int \<Rightarrow> 'f tts_event list \<Rightarrow> go_panic + 'f tts_state" where
  "SendTTSAudio frameDuration events =
     (case cacheFrameCount frameDuration of
        Inl p \<Rightarrow> Inl p
      | Inr cacheFrames \<Rightarrow>
          Inr (ingest \<lparr>metaAudioChan = make_chan 1000, flowControlChan = make_chan 1000,
                       logged = [],
                       pacerState = processFlowControl (make_chan 1000) cacheFrames
                                      frameDuration pacer_start,
                       returned = False\<rparr> events))"

text \<open>
  The frames the main loop receives from \<open>audioChan\<close> before it returns, in order.
\<close>

fun receivedFrames :: "'f tts_event list \<Rightarrow> 'f list" where
  "receivedFrames [] = []"
| "receivedFrames (AudioFrame frame # events) = frame # receivedFrames events"
| "receivedFrames (MetaHumanTakes # events) = receivedFrames events"
| "receivedFrames (AudioChanClosed # events) = []"
| "receivedFrames (CtxDone # events) = []"

text \<open>The spec's pre-roll depth, \<open>ceil(120 ms / frameDuration)\<close>, for comparison.\<close>

definition specCacheFrames :: "int \<Rightarrow> int" where
  "specCacheFrames frameDuration = \<lceil>120 / real_of_int frameDuration\<rceil>"

section \<open>Voice-activity detection over the VAD-feed buffer\<close>

text \<open>
  The slice expression \<^verbatim>\<open>xs[lo:hi]\<close>. The bounds used below never pass the length of
  the buffer, so Go's distinction between length and capacity does not arise.
\<close>

definition go_slice :: "'a list \<Rightarrow> int \<Rightarrow> int \<Rightarrow> go_panic + 'a list" where
  "go_slice xs lo hi =
     (if 0 \<le> lo \<and> lo \<le> hi \<and> hi \<le> int (length xs)
      then Inr (take (nat (hi - lo)) (drop (nat lo) xs))
      else Inl SliceOutOfRange)"

text \<open>
  The loop \<^verbatim>\<open>for i := 0; i < frameCount; i++\<close> over the full frames of the buffer.
  The detector keeps state between calls, so its answer may depend on the call as well
  as on the frame: \<open>IsVAD i frame\<close> is what the \<open>i\<close>-th call of the window returns, an
  error (\<open>Inl\<close>) or the verdict. A frame whose call fails is skipped
  (\<^verbatim>\<open>continue\<close>) and counts as not active.
\<close>

function vadCountLoop ::
  "(nat \<Rightarrow> 'b list \<Rightarrow> 'e + bool) \<Rightarrow> 'b list \<Rightarrow> int \<Rightarrow> int \<Rightarrow> int \<Rightarrow> int \<Rightarrow> go_panic + int" where
  "vadCountLoop IsVAD byteBuffer frameBytes frameCount i activeFrames =
     (if i < frameCount then
        (case go_slice byteBuffer (i * frameBytes) (i * frameBytes + frameBytes) of
           Inl p \<Rightarrow> Inl p
         | Inr frame \<Rightarrow>
             (case IsVAD (nat i) frame of
                Inl err \<Rightarrow> vadCountLoop IsVAD byteBuffer frameBytes frameCount (i + 1) activeFrames
              | Inr active \<Rightarrow>
                  vadCountLoop IsVAD byteBuffer frameBytes frameCount (i + 1)
                    (if active then activeFrames + 1 else activeFrames)))
      else Inr activeFrames)"
  by pat_completeness auto
termination
  by (relation "measure (\<lambda>(IsVAD, byteBuffer, frameBytes, frameCount, i, activeFrames).
        nat (frameCount - i))") auto

text \<open>
  The block guarded by \<^verbatim>\<open>len(byteBuffer) >= frameBytes*vadNeedGetCount\<close>: it yields
  the new \<open>haveVoice\<close> and the new buffer. When the guard is false both stay as they
  were. \<^verbatim>\<open>len(byteBuffer) / frameBytes\<close> panics when \<open>frameBytes\<close> is zero.
\<close>

definition vadWindow ::
  "(nat \<Rightarrow> 'b list \<Rightarrow> 'e + bool) \<Rightarrow> int \<Rightarrow> int \<Rightarrow> 'b list \<Rightarrow> bool \<Rightarrow> go_panic + (bool \<times> 'b list)" where
  "vadWindow IsVAD frameBytes vadNeedGetCount byteBuffer haveVoice =
     (if frameBytes * vadNeedGetCount \<le> int (length byteBuffer) then
        (case go_quot (int (length byteBuffer)) frameBytes of
           Inl p \<Rightarrow> Inl p
         | Inr frameCount \<Rightarrow>
             (case vadCountLoop IsVAD byteBuffer frameBytes frameCount 0 0 of
                Inl p \<Rightarrow> Inl p
              | Inr activeFrames \<Rightarrow>
                  (if 0 < frameCount then
                     (case go_slice byteBuffer (frameCount * frameBytes)
                             (int (length byteBuffer)) of
                        Inl p \<Rightarrow> Inl p
                      | Inr rest \<Rightarrow> Inr (tquot frameCount 2 < activeFrames, rest))
                   else Inr (tquot frameCount 2 < activeFrames, byteBuffer))))
      else Inr (haveVoice, byteBuffer))"

text \<open>
  For the statement of the majority rule: the \<open>i\<close>-th full frame of a buffer, and the
  number of the first \<open>n\<close> frames the detector reported active.
\<close>

definition vadFrame :: "'b list \<Rightarrow> nat \<Rightarrow> nat \<Rightarrow> 'b list" where
  "vadFrame byteBuffer frameBytes i = take frameBytes (drop (i * frameBytes) byteBuffer)"

definition detectedActive ::
  "(nat \<Rightarrow> 'b list \<Rightarrow> 'e + bool) \<Rightarrow> 'b list \<Rightarrow> nat \<Rightarrow> nat \<Rightarrow> nat" where
  "detectedActive IsVAD byteBuffer frameBytes n =
     length (filter (\<lambda>i. IsVAD i (vadFrame byteBuffer frameBytes i) = Inr True) [0..<n])"

section \<open>Properties\<close>

subsection \<open>Agent ids\<close>

lemma parseAgentIDLoop_no_colon:
  "\<forall>j<n. agentID ! j \<noteq> CHR '':'' \<Longrightarrow> parseAgentIDLoop agentID n = (agentID, agentID)"
  by (induction n) simp_all

lemma parseAgentIDLoop_last_colon:
  assumes "i < n" and "agentID ! i = CHR '':''" and "\<forall>j. i < j \<and> j < n \<longrightarrow> agentID ! j \<noteq> CHR '':''"
  shows "parseAgentIDLoop agentID n = (take i agentID, drop (Suc i) agentID)"
  using assms
proof (induction n)
  case 0
  then show ?case by simp
next
  case (Suc n)
  show ?case
  proof (cases "i = n")
    case True
    with Suc.prems show ?thesis by simp
  next
    case False
    with Suc.prems have "i < n" by simp
    moreover from Suc.prems False have "agentID ! n \<noteq> CHR '':''" by simp
    moreover from Suc.prems have "\<forall>j. i < j \<and> j < n \<longrightarrow> agentID ! j \<noteq> CHR '':''" by simp
    ultimately show ?thesis using Suc.IH Suc.prems(2) by simp
  qed
qed

text \<open>
  C10. \<^verbatim>\<open>parseAgentID\<close> splits at the last colon: when the agent id is
  \<open>d @ ":" @ s\<close> with no colon in \<open>s\<close>, the device id is \<open>d\<close> and the session id is
  \<open>s\<close>; when the agent id has no colon, device id and session id are both the agent id.
\<close>

theorem parseAgentID_splits_at_last_colon:
  "(CHR '':'' \<notin> set s \<longrightarrow> parseAgentID (d @ CHR '':'' # s) = (d, s)) \<and>
   (CHR '':'' \<notin> set agentID \<longrightarrow> parseAgentID agentID = (agentID, agentID))"
proof (intro conjI impI)
  assume s: "CHR '':'' \<notin> set s"
  let ?a = "d @ CHR '':'' # s"
  have "parseAgentIDLoop ?a (length ?a) = (take (length d) ?a, drop (Suc (length d)) ?a)"
  proof (rule parseAgentIDLoop_last_colon)
    show "length d < length ?a" by simp
    show "?a ! length d = CHR '':''" by simp
    show "\<forall>j. length d < j \<and> j < length ?a \<longrightarrow> ?a ! j \<noteq> CHR '':''"
    proof (intro allI impI)
      fix j assume j: "length d < j \<and> j < length ?a"
      then have "?a ! j = s ! (j - Suc (length d))"
        by (simp add: nth_append nth_Cons')
      moreover from j have "j - Suc (length d) < length s" by auto
      ultimately show "?a ! j \<noteq> CHR '':''" using s by (metis nth_mem)
    qed
  qed
  then show "parseAgentID ?a = (d, s)" by (simp add: parseAgentID_def)
next
  assume "CHR '':'' \<notin> set agentID"
  then have "\<forall>j<length agentID. agentID ! j \<noteq> CHR '':''" by (metis nth_mem)
  then show "parseAgentID agentID = (agentID, agentID)"
    unfolding parseAgentID_def by (rule parseAgentIDLoop_no_colon)
qed

theorem parseAgentID_splits_at_last_colon_witness:
  "CHR '':'' \<notin> set ''sess-7'' \<and> parseAgentID ''dev:01:sess-7'' = (''dev:01'', ''sess-7'') \<and>
   CHR '':'' \<notin> set ''dev01'' \<and> parseAgentID ''dev01'' = (''dev01'', ''dev01'')"
  using parseAgentID_splits_at_last_colon [of "''sess-7''" "''dev:01''" "''dev01''"]
  by simp

subsection \<open>Routing after ToolCallResult\<close>

text \<open>
  What the loop computes: a stop-marked tool result anywhere in the list wins; otherwise
  the flags, each raised by a message of the list or already set on entry, decide.
\<close>

lemma toolBranchLoop_eq:
  "toolBranchLoop input hasToolCall hasToolResult =
     (if \<exists>msg. Some msg \<in> set input \<and> stopMarked msg then compose_END
      else if hasToolCall \<or> hasToolResult
              \<or> (\<exists>msg. Some msg \<in> set input \<and> (ToolCalls msg \<noteq> [] \<or> Role msg = schema_Tool))
      then NodeLLM else compose_END)"
proof (induction input hasToolCall hasToolResult rule: toolBranchLoop.induct)
  case (1 hasToolCall hasToolResult)
  show ?case by simp
next
  case (2 input hasToolCall hasToolResult)
  have "toolBranchLoop (None # input) hasToolCall hasToolResult =
        toolBranchLoop input hasToolCall hasToolResult" by simp
  moreover have "\<And>msg. Some msg \<in> set (None # input) \<longleftrightarrow> Some msg \<in> set input" by simp
  ultimately show ?case using 2 by presburger
next
  case (3 msg input hasToolCall hasToolResult)
  show ?case
  proof (cases "stopMarked msg")
    case True
    then show ?thesis by auto
  next
    case False
    with 3 show ?thesis by (simp del: not_None_eq) blast
  qed
qed

lemma NodeLLM_neq_END: "NodeLLM \<noteq> compose_END"
  by (simp add: NodeLLM_def compose_END_def)

text \<open>
  C2. Once the list handed to the branch after ToolCallResult holds a tool-result message
  whose content starts with \<open>[STOP]\<close>, the branch returns END (in the list variant and in
  the stream variant of the graph alike) and therefore not the LLM node.
\<close>

theorem stop_marked_result_routes_to_END:
  assumes "Some msg \<in> set input" and "Role msg = schema_Tool"
    and "Content msg = ''[STOP]'' @ rest"
  shows "afterToolCallBranchCondition input = compose_END \<and>
         branchCondition input = compose_END \<and>
         afterToolCallBranchCondition input \<noteq> NodeLLM \<and>
         branchCondition input \<noteq> NodeLLM"
proof -
  from assms(2,3) have "stopMarked msg" by (simp add: stopMarked_def)
  with assms(1) have "\<exists>m. Some m \<in> set input \<and> stopMarked m" by blast
  then have "toolBranchLoop input False False = compose_END"
    by (simp only: toolBranchLoop_eq if_True)
  then show ?thesis
    using NodeLLM_neq_END by (simp add: afterToolCallBranchCondition_def branchCondition_def)
qed

theorem stop_marked_result_routes_to_END_witness:
  "Some \<lparr>Role = ''tool'', Content = ''[STOP]playing'', MultiContent = [], ToolCalls = [],
          ToolCallID = ''call_2''\<rparr>
     \<in> set [Some \<lparr>Role = ''tool'', Content = ''sunny'', MultiContent = [], ToolCalls = [],
                    ToolCallID = ''call_1''\<rparr>,
              Some \<lparr>Role = ''tool'', Content = ''[STOP]playing'', MultiContent = [],
                    ToolCalls = [], ToolCallID = ''call_2''\<rparr>] \<and>
   afterToolCallBranchCondition
     [Some \<lparr>Role = ''tool'', Content = ''sunny'', MultiContent = [], ToolCalls = [],
            ToolCallID = ''call_1''\<rparr>,
      Some \<lparr>Role = ''tool'', Content = ''[STOP]playing'', MultiContent = [], ToolCalls = [],
            ToolCallID = ''call_2''\<rparr>] = ''end'' \<and>
   branchCondition
     [Some \<lparr>Role = ''tool'', Content = ''sunny'', MultiContent = [], ToolCalls = [],
            ToolCallID = ''call_1''\<rparr>,
      Some \<lparr>Role = ''tool'', Content = ''[STOP]playing'', MultiContent = [], ToolCalls = [],
            ToolCallID = ''call_2''\<rparr>] = ''end''"
  using stop_marked_result_routes_to_END
    [of "\<lparr>Role = ''tool'', Content = ''[STOP]playing'', MultiContent = [], ToolCalls = [],
          ToolCallID = ''call_2''\<rparr>"
        "[Some \<lparr>Role = ''tool'', Content = ''sunny'', MultiContent = [], ToolCalls = [],
                ToolCallID = ''call_1''\<rparr>,
          Some \<lparr>Role = ''tool'', Content = ''[STOP]playing'', MultiContent = [],
                ToolCalls = [], ToolCallID = ''call_2''\<rparr>]"
        "''playing''"]
  by (simp add: schema_Tool_def compose_END_def)

text \<open>
  C3, as stated, fails: the list below holds a tool result that is not \<open>[STOP]\<close>-marked,
  yet the branch routes to END because another tool result of the list is marked. The
  ToolCallResult node hands this list on unchanged.
\<close>

theorem afterToolCallBranch_not_iff_some_unmarked:
  "Role \<lparr>Role = ''tool'', Content = ''sunny'', MultiContent = [], ToolCalls = [],
         ToolCallID = []\<rparr> = schema_Tool \<and>
   \<not> stopMarked \<lparr>Role = ''tool'', Content = ''sunny'', MultiContent = [], ToolCalls = [],
                  ToolCallID = []\<rparr> \<and>
   afterToolCallBranchCondition
     [Some \<lparr>Role = ''tool'', Content = ''sunny'', MultiContent = [], ToolCalls = [],
            ToolCallID = []\<rparr>,
      Some \<lparr>Role = ''tool'', Content = ''[STOP]playing'', MultiContent = [], ToolCalls = [],
            ToolCallID = []\<rparr>] = compose_END \<and>
   afterToolCallBranchCondition
     [Some \<lparr>Role = ''tool'', Content = ''sunny'', MultiContent = [], ToolCalls = [],
            ToolCallID = []\<rparr>,
      Some \<lparr>Role = ''tool'', Content = ''[STOP]playing'', MultiContent = [], ToolCalls = [],
            ToolCallID = []\<rparr>] \<noteq> NodeLLM \<and>
   toolCallResultHandler (Map.empty :: string \<rightharpoonup> unit) (\<lambda>toolName result toolObj. (result, False))
     [Some \<lparr>Role = ''tool'', Content = ''sunny'', MultiContent = [], ToolCalls = [],
            ToolCallID = []\<rparr>,
      Some \<lparr>Role = ''tool'', Content = ''[STOP]playing'', MultiContent = [], ToolCalls = [],
            ToolCallID = []\<rparr>]
   = [\<lparr>Role = ''tool'', Content = ''sunny'', MultiContent = [], ToolCalls = [],
       ToolCallID = []\<rparr>,
      \<lparr>Role = ''tool'', Content = ''[STOP]playing'', MultiContent = [], ToolCalls = [],
       ToolCallID = []\<rparr>]"
  by (simp add: afterToolCallBranchCondition_def stopMarked_def schema_Tool_def
      compose_END_def NodeLLM_def toolCallResultHandler_def)

text \<open>
  C3, as amended. The branch after ToolCallResult routes back to the LLM node if and only
  if no tool-result message of the list is \<open>[STOP]\<close>-marked and some message of the list
  carries tool calls or is a tool result; in every other case it routes to END.
\<close>

theorem afterToolCallBranch_routes_to_LLM_iff:
  "(afterToolCallBranchCondition input = NodeLLM \<longleftrightarrow>
      \<not> (\<exists>msg. Some msg \<in> set input \<and> stopMarked msg) \<and>
      (\<exists>msg. Some msg \<in> set input \<and> (ToolCalls msg \<noteq> [] \<or> Role msg = schema_Tool))) \<and>
   (afterToolCallBranchCondition input \<noteq> NodeLLM \<longleftrightarrow>
      afterToolCallBranchCondition input = compose_END)"
  using NodeLLM_neq_END
  by (simp add: afterToolCallBranchCondition_def toolBranchLoop_eq)

theorem afterToolCallBranch_routes_to_LLM_iff_witness:
  "afterToolCallBranchCondition
     [Some \<lparr>Role = ''tool'', Content = ''sunny'', MultiContent = [], ToolCalls = [],
            ToolCallID = ''call_1''\<rparr>] = NodeLLM \<and>
   afterToolCallBranchCondition
     [Some \<lparr>Role = ''assistant'', Content = ''hello'', MultiContent = [], ToolCalls = [],
            ToolCallID = []\<rparr>] = compose_END"
proof -
  let ?t = "\<lparr>Role = ''tool'', Content = ''sunny'', MultiContent = [], ToolCalls = [],
            ToolCallID = ''call_1''\<rparr>"
  let ?a = "\<lparr>Role = ''assistant'', Content = ''hello'', MultiContent = [], ToolCalls = [],
            ToolCallID = []\<rparr>"
  have "\<not> stopMarked ?t" "Role ?t = schema_Tool" "Role ?a \<noteq> schema_Tool" "ToolCalls ?a = []"
    by (simp_all add: stopMarked_def schema_Tool_def)
  then have "afterToolCallBranchCondition [Some ?t] = NodeLLM"
    and "afterToolCallBranchCondition [Some ?a] \<noteq> NodeLLM"
    using afterToolCallBranch_routes_to_LLM_iff [of "[Some ?t]"]
      afterToolCallBranch_routes_to_LLM_iff [of "[Some ?a]"]
    by (simp_all add: stopMarked_def)
  moreover have "afterToolCallBranchCondition [Some ?a] \<noteq> NodeLLM \<longleftrightarrow>
      afterToolCallBranchCondition [Some ?a] = compose_END"
    using afterToolCallBranch_routes_to_LLM_iff [of "[Some ?a]"] by (rule conjunct2)
  ultimately show ?thesis by blast
qed

text \<open>
  The ToolCallResult node of the list variant never finds a tool call for a result,
  because its \<open>toolCallMap\<close> stays empty: whatever the tools and whatever
  \<^verbatim>\<open>processToolCallResult\<close> would answer, its output is the non-nil input messages that
  are not tool results carrying a tool-call id, in their order. No message is rewritten
  and no \<open>[STOP]\<close> prefix is added.
\<close>

theorem toolCallResultHandler_passes_or_drops:
  "toolCallResultHandler mcpTools processToolCallResult input =
     [msg. Some msg \<leftarrow> input, \<not> toolResultWithID msg]"
  unfolding toolCallResultHandler_def
proof (induction input)
  case Nil
  show ?case by simp
next
  case (Cons chunk input)
  show ?case
  proof (cases chunk)
    case None
    with Cons.IH show ?thesis by simp
  next
    case (Some msg)
    show ?thesis
    proof (cases "toolResultWithID msg")
      case True
      moreover from True have "Role msg = schema_Tool" and "ToolCallID msg \<noteq> []"
        by (simp_all add: toolResultWithID_def)
      ultimately show ?thesis using Cons.IH Some by simp
    next
      case False
      moreover from False have "\<not> (Role msg = schema_Tool \<and> ToolCallID msg \<noteq> [])"
        by (simp add: toolResultWithID_def)
      ultimately show ?thesis using Cons.IH Some by simp
    qed
  qed
qed

subsection \<open>Pre-roll depth\<close>

lemma quotient_is_floor: "0 < fd \<Longrightarrow> 120 div fd = \<lfloor>120 / real_of_int fd\<rfloor>"
  by (metis floor_divide_of_int_eq of_int_numeral)

text \<open>
  C8, as stated, fails: for a frame duration of 25 ms the code computes 4 cache frames,
  where the ceiling of 120/25 is 5.
\<close>

theorem cacheFrameCount_25_is_not_ceiling:
  "cacheFrameCount 25 = Inr 4 \<and> specCacheFrames 25 = 5"
  by (simp add: cacheFrameCount_def go_quot_def tquot_def specCacheFrames_def)

text \<open>
  C8, as amended. For every positive output frame duration the pre-roll depth is the
  integer quotient \<open>floor(120 ms / frameDuration)\<close>; a frame duration of 25 ms yields 4
  and one of 20 ms yields 6. (A frame duration of zero panics in the division.)
\<close>

theorem cacheFrameCount_is_floor:
  "(0 < frameDuration \<longrightarrow>
      cacheFrameCount frameDuration = Inr \<lfloor>120 / real_of_int frameDuration\<rfloor>) \<and>
   cacheFrameCount 0 = Inl DivideByZero \<and>
   cacheFrameCount 25 = Inr 4 \<and> cacheFrameCount 20 = Inr 6"
  by (simp add: cacheFrameCount_def go_quot_def tquot_def quotient_is_floor)

theorem cacheFrameCount_is_floor_witness:
  "(0::int) < 60 \<and> cacheFrameCount 60 = Inr 2 \<and> (0::int) < 50 \<and> cacheFrameCount 50 = Inr 2"
proof -
  have "\<lfloor>120 / real_of_int 60\<rfloor> = 2" and "\<lfloor>120 / real_of_int 50\<rfloor> = 2" by simp_all
  then show ?thesis
    using cacheFrameCount_is_floor [of 60] cacheFrameCount_is_floor [of 50] by simp
qed

subsection \<open>Ingestion of TTS frames\<close>

lemma dispatchFrame_flowControlChan:
  "flowControlChan (dispatchFrame st frame) =
     (if length (buf (flowControlChan st)) < cap (flowControlChan st)
      then (flowControlChan st)\<lparr>buf := buf (flowControlChan st) @ [frame]\<rparr>
      else flowControlChan st)"
  by (simp add: dispatchFrame_def trySend_def split: prod.splits)

lemma dispatchFrame_warnings:
  "filter (\<lambda>l. l = FlowControlChanFull) (logged (dispatchFrame st frame)) =
     filter (\<lambda>l. l = FlowControlChanFull) (logged st) @
     (if length (buf (flowControlChan st)) < cap (flowControlChan st) then []
      else [FlowControlChanFull])"
  by (simp add: dispatchFrame_def trySend_def split: prod.splits)

text \<open>
  Nothing drains the flow-control channel, so it fills with the first frames received
  up to its capacity and stays there.
\<close>

lemma ingest_flowControlChan:
  "buf (flowControlChan (ingest st events)) =
     buf (flowControlChan st) @
       take (cap (flowControlChan st) - length (buf (flowControlChan st)))
         (receivedFrames events) \<and>
   cap (flowControlChan (ingest st events)) = cap (flowControlChan st)"
proof (induction st events rule: ingest.induct)
  case (2 st frame events)
  then show ?case
    by (auto simp: dispatchFrame_flowControlChan take_Cons' Suc_diff_le)
qed (simp_all add: close_chan_def)

lemma ingest_warnings:
  "filter (\<lambda>l. l = FlowControlChanFull) (logged (ingest st events)) =
     filter (\<lambda>l. l = FlowControlChanFull) (logged st) @
     replicate (length (receivedFrames events)
        - (cap (flowControlChan st) - length (buf (flowControlChan st)))) FlowControlChanFull"
proof (induction st events rule: ingest.induct)
  case (2 st frame events)
  then show ?case
    by (auto simp: dispatchFrame_flowControlChan dispatchFrame_warnings
        replicate_app_Cons_same Suc_diff_le)
qed simp_all

lemma ingest_pacerState: "pacerState (ingest st events) = pacerState st"
  by (induction st events rule: ingest.induct)
    (simp_all add: dispatchFrame_def split: prod.splits)

lemma receivedFrames_map: "receivedFrames (map AudioFrame fs) = fs"
  by (induction fs) simp_all

text \<open>
  C9, as stated, fails: of 1001 frames received, the flow-control channel holds the
  first 1000; the last one is discarded for the pacer, with one warning. However the
  channel came to hold 1000 frames, the next frame offered to it is not queued.
\<close>

theorem SendTTSAudio_drops_frame_1001:
  "map_sum id (buf \<circ> flowControlChan)
     (SendTTSAudio 20 (map AudioFrame (replicate 1000 [0::nat] @ [[1]]))) =
     Inr (replicate 1000 [0]) \<and>
   map_sum id (filter (\<lambda>l. l = FlowControlChanFull) \<circ> logged)
     (SendTTSAudio 20 (map AudioFrame (replicate 1000 [0::nat] @ [[1]]))) =
     Inr [FlowControlChanFull] \<and>
   buf (flowControlChan (dispatchFrame
      \<lparr>metaAudioChan = make_chan 1000,
       flowControlChan = \<lparr>buf = replicate 1000 [0::nat], cap = 1000, closed = False\<rparr>,
       logged = [], pacerState = pacer_start, returned = False\<rparr> [1])) = replicate 1000 [0]"
proof -
  let ?fs = "replicate 1000 [0::nat] @ [[1]]"
  let ?st0 = "\<lparr>metaAudioChan = make_chan 1000, flowControlChan = make_chan 1000,
               logged = [],
               pacerState = processFlowControl (make_chan 1000) 6 20 pacer_start,
               returned = False\<rparr> :: nat list tts_state"
  have run: "SendTTSAudio 20 (map AudioFrame ?fs) = Inr (ingest ?st0 (map AudioFrame ?fs))"
    by (simp add: SendTTSAudio_def cacheFrameCount_def go_quot_def tquot_def)
  have b: "buf (flowControlChan (ingest ?st0 (map AudioFrame ?fs))) = replicate 1000 [0]"
    by (simp only: ingest_flowControlChan receivedFrames_map) (simp add: make_chan_def)
  have w: "filter (\<lambda>l. l = FlowControlChanFull) (logged (ingest ?st0 (map AudioFrame ?fs)))
           = [FlowControlChanFull]"
    by (simp only: ingest_warnings receivedFrames_map) (simp add: make_chan_def)
  have d: "buf (flowControlChan (dispatchFrame
      \<lparr>metaAudioChan = make_chan 1000,
       flowControlChan = \<lparr>buf = replicate 1000 [0::nat], cap = 1000, closed = False\<rparr>,
       logged = [], pacerState = pacer_start, returned = False\<rparr> [1])) = replicate 1000 [0]"
    by (simp add: dispatchFrame_flowControlChan)
  show ?thesis using run b w d by simp
qed

text \<open>
  C9, as amended. The ingestion loop offers every frame it receives to the
  digital-human channel and to the flow-control (pacer) channel, each with a
  non-blocking send, and never waits: a channel with room queues the frame; a full
  digital-human channel drops it for that side path only (a debug line is logged); a
  full flow-control channel drops it for the pacer, with a warning. Neither channel's
  fate depends on the other's.
\<close>

theorem dispatchFrame_offers_to_both_channels:
  "buf (metaAudioChan (dispatchFrame st frame)) =
     (if length (buf (metaAudioChan st)) < cap (metaAudioChan st)
      then buf (metaAudioChan st) @ [frame] else buf (metaAudioChan st)) \<and>
   buf (flowControlChan (dispatchFrame st frame)) =
     (if length (buf (flowControlChan st)) < cap (flowControlChan st)
      then buf (flowControlChan st) @ [frame] else buf (flowControlChan st)) \<and>
   logged (dispatchFrame st frame) =
     logged st
     @ (if length (buf (metaAudioChan st)) < cap (metaAudioChan st) then []
        else [MetaAudioChanFull])
     @ (if length (buf (flowControlChan st)) < cap (flowControlChan st) then []
        else [FlowControlChanFull]) \<and>
   cap (metaAudioChan (dispatchFrame st frame)) = cap (metaAudioChan st) \<and>
   cap (flowControlChan (dispatchFrame st frame)) = cap (flowControlChan st) \<and>
   ingest st (map AudioFrame frames) = foldl dispatchFrame st frames"
proof -
  have "ingest st (map AudioFrame frames) = foldl dispatchFrame st frames"
    by (induction frames arbitrary: st) simp_all
  then show ?thesis
    by (simp add: dispatchFrame_def trySend_def split: prod.splits)
qed

theorem dispatchFrame_offers_to_both_channels_witness:
  "buf (metaAudioChan (dispatchFrame
      \<lparr>metaAudioChan = \<lparr>buf = [[7::nat]], cap = 1, closed = False\<rparr>,
       flowControlChan = \<lparr>buf = [[7]], cap = 2, closed = False\<rparr>,
       logged = [], pacerState = pacer_start, returned = False\<rparr> [8])) = [[7]] \<and>
   buf (flowControlChan (dispatchFrame
      \<lparr>metaAudioChan = \<lparr>buf = [[7::nat]], cap = 1, closed = False\<rparr>,
       flowControlChan = \<lparr>buf = [[7]], cap = 2, closed = False\<rparr>,
       logged = [], pacerState = pacer_start, returned = False\<rparr> [8])) = [[7], [8]] \<and>
   logged (dispatchFrame
      \<lparr>metaAudioChan = \<lparr>buf = [[7::nat]], cap = 1, closed = False\<rparr>,
       flowControlChan = \<lparr>buf = [[7]], cap = 2, closed = False\<rparr>,
       logged = [], pacerState = pacer_start, returned = False\<rparr> [8]) = [MetaAudioChanFull]"
  using dispatchFrame_offers_to_both_channels
    [of "\<lparr>metaAudioChan = \<lparr>buf = [[7::nat]], cap = 1, closed = False\<rparr>,
          flowControlChan = \<lparr>buf = [[7]], cap = 2, closed = False\<rparr>,
          logged = [], pacerState = pacer_start, returned = False\<rparr>" "[8]" "[]"]
  by simp

subsection \<open>Pacing\<close>

text \<open>
  C1. The pacing the claim describes is not what runs: \<^verbatim>\<open>processFlowControl\<close> returns
  before its loop, so for every frame duration and every stream the pacer writes no
  frame to the client, takes no frame from its channel and never sleeps, neither between
  frames nor when the stream closes.
\<close>

theorem processFlowControl_returns_before_pacing:
  "processFlowControl ch cacheFrames frameDuration p = p \<and>
   (frameDuration \<noteq> 0 \<longrightarrow>
      (\<exists>st. SendTTSAudio frameDuration events = Inr st \<and>
         clientFrames (pacerState st) = [] \<and> takenFrames (pacerState st) = 0 \<and>
         sleptMs (pacerState st) = 0))"
  by (simp add: SendTTSAudio_def cacheFrameCount_def go_quot_def tquot_def ingest_pacerState
      processFlowControl_def pacer_start_def)

theorem processFlowControl_returns_before_pacing_witness:
  "(20::int) \<noteq> 0 \<and>
   (\<exists>st. SendTTSAudio 20 [AudioFrame [1::nat], AudioFrame [2], AudioChanClosed] = Inr st \<and>
      clientFrames (pacerState st) = [] \<and> takenFrames (pacerState st) = 0 \<and>
      sleptMs (pacerState st) = 0 \<and> buf (flowControlChan st) = [[1], [2]])"
proof -
  have "\<exists>st. SendTTSAudio 20 [AudioFrame [1::nat], AudioFrame [2], AudioChanClosed] = Inr st \<and>
      clientFrames (pacerState st) = [] \<and> takenFrames (pacerState st) = 0 \<and>
      sleptMs (pacerState st) = 0"
    using processFlowControl_returns_before_pacing
      [of "make_chan 1000 :: nat list chan" 6 20 pacer_start
          "[AudioFrame [1::nat], AudioFrame [2], AudioChanClosed]"]
    by simp
  moreover have "\<And>st. SendTTSAudio 20 [AudioFrame [1::nat], AudioFrame [2], AudioChanClosed]
      = Inr st \<Longrightarrow> buf (flowControlChan st) = [[1], [2]]"
    by (auto simp: SendTTSAudio_def cacheFrameCount_def go_quot_def tquot_def dispatchFrame_def
        trySend_def make_chan_def close_chan_def)
  ultimately show ?thesis by auto
qed

subsection \<open>The VAD majority rule\<close>

lemma tquot_nonneg: "0 \<le> a \<Longrightarrow> 0 < b \<Longrightarrow> tquot a b = a div b"
  by (simp add: tquot_def sgn_if)

lemma go_slice_frame:
  assumes "0 < fb" and "i < fc" and "int fc * int fb \<le> int (length bs)"
  shows "go_slice bs (int i * int fb) (int i * int fb + int fb) = Inr (vadFrame bs fb i)"
proof -
  have "int (Suc i) * int fb \<le> int fc * int fb"
    using assms(2) by (intro mult_right_mono) auto
  then have "int i * int fb + int fb \<le> int (length bs)"
    using assms(3) by (simp add: algebra_simps)
  moreover have "nat (int i * int fb) = i * fb" by (simp add: nat_mult_distrib)
  ultimately show ?thesis
    by (simp add: go_slice_def vadFrame_def)
qed

lemma vadCountLoop_counts:
  assumes "0 < fb" and "int fc * int fb \<le> int (length bs)" and "i \<le> fc"
  shows "vadCountLoop IsVAD bs (int fb) (int fc) (int i) a =
         Inr (a + int (length (filter (\<lambda>j. IsVAD j (vadFrame bs fb j) = Inr True) [i..<fc])))"
  using assms(3)
proof (induction "fc - i" arbitrary: i a)
  case 0
  then have "i = fc" by simp
  then show ?case by simp
next
  case (Suc n)
  then have lt: "i < fc" and n: "n = fc - Suc i" and le: "Suc i \<le> fc" by simp_all
  have sl: "go_slice bs (int i * int fb) (int i * int fb + int fb) = Inr (vadFrame bs fb i)"
    using assms(1) lt assms(2) by (rule go_slice_frame)
  have up: "[i..<fc] = i # [Suc i..<fc]" using lt by (simp add: upt_conv_Cons)
  have step: "int i + 1 = int (Suc i)" by simp
  show ?case
  proof (cases "IsVAD i (vadFrame bs fb i)")
    case (Inl err)
    then show ?thesis
      using Suc.hyps(1) [OF n le] lt sl
      by (subst vadCountLoop.simps) (simp add: up step del: vadCountLoop.simps of_nat_Suc)
  next
    case (Inr active)
    then show ?thesis
      using Suc.hyps(1) [OF n le] lt sl
      by (subst vadCountLoop.simps) (simp add: up step del: vadCountLoop.simps of_nat_Suc)
  qed
qed

text \<open>
  C6. When the guard of the VAD block holds, the window is the \<open>N\<close> full frames of the
  buffer; with \<open>k\<close> of them reported active by the detector, voice is declared present
  if and only if \<open>N < 2 * k\<close>, that is \<open>k > N/2\<close> (a tie is not voice), and the \<open>N\<close>
  processed frames are removed from the front of the buffer.
\<close>

theorem vadWindow_majority:
  assumes "0 < frameBytes"
    and "int frameBytes * vadNeedGetCount \<le> int (length byteBuffer)"
  shows "vadWindow IsVAD (int frameBytes) vadNeedGetCount byteBuffer haveVoice =
           Inr (length byteBuffer div frameBytes
                  < 2 * detectedActive IsVAD byteBuffer frameBytes (length byteBuffer div frameBytes),
                drop (length byteBuffer div frameBytes * frameBytes) byteBuffer)"
proof -
  let ?N = "length byteBuffer div frameBytes"
  let ?k = "detectedActive IsVAD byteBuffer frameBytes ?N"
  have q: "go_quot (int (length byteBuffer)) (int frameBytes) = Inr (int ?N)"
    using assms(1) by (simp add: go_quot_def tquot_nonneg zdiv_int)
  have fits: "int ?N * int frameBytes \<le> int (length byteBuffer)"
    by (metis of_nat_mult of_nat_le_iff div_times_less_eq_dividend)
  have cnt: "vadCountLoop IsVAD byteBuffer (int frameBytes) (int ?N) 0 0 = Inr (int ?k)"
    using vadCountLoop_counts [OF assms(1) fits, of 0 IsVAD 0]
    by (simp add: detectedActive_def)
  have half: "tquot (int ?N) 2 < int ?k \<longleftrightarrow> ?N < 2 * ?k"
    by (simp add: tquot_nonneg) linarith
  have rest: "go_slice byteBuffer (int ?N * int frameBytes) (int (length byteBuffer)) =
              Inr (drop (?N * frameBytes) byteBuffer)"
    using fits by (simp add: go_slice_def flip: of_nat_mult)
  show ?thesis
  proof (cases "0 < ?N")
    case True
    then show ?thesis
      using assms(2) q cnt half rest by (simp add: vadWindow_def)
  next
    case False
    then show ?thesis
      using assms(2) q cnt half by (simp add: vadWindow_def)
  qed
qed


theorem vadWindow_majority_witness:
  "(0::nat) < 2 \<and> int 2 * 3 \<le> int (length [1, 1, 0, 0, 1, 1, 9 :: nat]) \<and>
   vadWindow (\<lambda>i frame. (Inr (frame = [1, 1]) :: unit + bool)) (int 2) 3
     [1, 1, 0, 0, 1, 1, 9 :: nat] False = Inr (True, [9]) \<and>
   int 2 * 2 \<le> int (length [1, 1, 0, 0 :: nat]) \<and>
   vadWindow (\<lambda>i frame. (Inr (frame = [1, 1]) :: unit + bool)) (int 2) 2
     [1, 1, 0, 0 :: nat] True = Inr (False, [])"
proof -
  let ?IsVAD = "\<lambda>(i::nat) (frame::nat list). (Inr (frame = [1, 1]) :: unit + bool)"
  let ?xs = "[1, 1, 0, 0, 1, 1, 9 :: nat]"
  let ?ys = "[1, 1, 0, 0 :: nat]"
  have w1: "vadWindow ?IsVAD (int 2) 3 ?xs False =
      Inr (length ?xs div 2 < 2 * detectedActive ?IsVAD ?xs 2 (length ?xs div 2),
           drop (length ?xs div 2 * 2) ?xs)"
    by (rule vadWindow_majority) simp_all
  have w2: "vadWindow ?IsVAD (int 2) 2 ?ys True =
      Inr (length ?ys div 2 < 2 * detectedActive ?IsVAD ?ys 2 (length ?ys div 2),
           drop (length ?ys div 2 * 2) ?ys)"
    by (rule vadWindow_majority) simp_all
  have k1: "detectedActive ?IsVAD ?xs 2 (length ?xs div 2) = 2"
    by (simp add: detectedActive_def vadFrame_def upt_rec)
  have k2: "detectedActive ?IsVAD ?ys 2 (length ?ys div 2) = 1"
    by (simp add: detectedActive_def vadFrame_def upt_rec)
  show ?thesis unfolding w1 w2 k1 k2 by simp
qed

subsection \<open>Aggregation in the stream post-handler\<close>

lemma accumulate_fields:
  "Content (accumulate f m) = Content f @ assistantText [m]"
  "ToolCalls (accumulate f m) = ToolCalls f @ assistantToolCalls [m]"
  "MultiContent (accumulate f m) = MultiContent f"
  "ToolCallID (accumulate f m) = ToolCallID f"
  by (simp_all add: accumulate_def assistantText_def assistantToolCalls_def)

lemma assistantText_Cons: "assistantText (m # ms) = assistantText [m] @ assistantText ms"
  by (simp add: assistantText_def)

lemma assistantToolCalls_Cons:
  "assistantToolCalls (m # ms) = assistantToolCalls [m] @ assistantToolCalls ms"
  by (simp add: assistantToolCalls_def)

lemma finish_accumulate: "finish (accumulate f m) ms = finish f (m # ms)"
  by (simp add: finish_def accumulate_fields assistantText_Cons [of m ms]
      assistantToolCalls_Cons [of m ms])

lemma finish_Nil:
  "finish f [] = (if Content f \<noteq> [] \<or> ToolCalls f \<noteq> [] then [f\<lparr>Role := schema_Assistant\<rparr>] else [])"
  by (simp add: finish_def assistantText_def assistantToolCalls_def)

lemma streamPostLoop_returned:
  "streamPostLoop ctxDone n chunks ending f piped state = (state', Returned out) \<Longrightarrow>
     ending = EOF \<and>
     (\<exists>rest. out = piped @ rest \<and> map Some rest = chunks \<and>
        state' = state\<lparr>history := history state @ finish f rest\<rparr>)"
proof (induction chunks arbitrary: n f piped)
  case Nil
  then show ?case
    by (auto simp: finish_Nil split: if_splits stream_end.splits)
next
  case (Cons chunk chunks)
  from Cons.prems obtain msg where chunk: "chunk = Some msg"
    and rec: "streamPostLoop ctxDone (Suc n) chunks ending (accumulate f msg) (piped @ [msg]) state
              = (state', Returned out)"
    by (auto split: if_splits option.splits)
  from Cons.IH [OF rec] obtain rest where e: "ending = EOF"
    and o: "out = (piped @ [msg]) @ rest" and r: "map Some rest = chunks"
    and s: "state' = state\<lparr>history := history state @ finish (accumulate f msg) rest\<rparr>"
    by blast
  have "out = piped @ (msg # rest)" using o by simp
  moreover have "map Some (msg # rest) = chunk # chunks" using r chunk by simp
  moreover have "state' = state\<lparr>history := history state @ finish f (msg # rest)\<rparr>"
    using s by (simp only: finish_accumulate)
  ultimately have "\<exists>rest'. out = piped @ rest' \<and> map Some rest' = chunk # chunks \<and>
        state' = state\<lparr>history := history state @ finish f rest'\<rparr>"
    by (intro exI [of _ "msg # rest"] conjI)
  with e show ?case by (rule conjI)
qed

lemma streamPostLoop_returns:
  "\<forall>n. \<not> ctxDone n \<Longrightarrow> length piped + length deltas \<le> pipeCapacity \<Longrightarrow>
   streamPostLoop ctxDone n (map Some deltas) EOF f piped state =
     (state\<lparr>history := history state @ finish f deltas\<rparr>, Returned (piped @ deltas))"
proof (induction deltas arbitrary: n f piped)
  case Nil
  then show ?case by (simp add: finish_Nil)
next
  case (Cons m ms)
  then show ?case by (simp add: finish_accumulate)
qed

lemma finish_zero: "finish zeroMessage deltas = aggregated deltas"
  by (simp add: finish_def zeroMessage_def aggregated_def)

text \<open>
  A stream that closes normally after one assistant delta without text and without tool
  calls leaves the history as it was: the aggregate is appended only when it has text or
  tool calls.
\<close>

lemma streamStatePostHandler_appends_nothing:
  "streamStatePostHandler (\<lambda>n. False)
     [Some \<lparr>Role = ''assistant'', Content = [], MultiContent = [], ToolCalls = [],
            ToolCallID = []\<rparr>] EOF \<lparr>history = []\<rparr>
   = (\<lparr>history = []\<rparr>,
      Returned [\<lparr>Role = ''assistant'', Content = [], MultiContent = [], ToolCalls = [],
                 ToolCallID = []\<rparr>])"
  by (simp add: streamStatePostHandler_def pipeCapacity_def accumulate_def zeroMessage_def
      schema_Assistant_def)

text \<open>
  Streams of at most ten deltas. Whenever the post-handler returns the stream it
  forwards, the source stream ended with EOF, every delta was forwarded unchanged and in
  order, and at most one assistant message was appended to the history: exactly one when
  the assistant deltas carry some text or some tool call, its content the concatenation
  of their texts and its tool-call list the concatenation of their tool calls, and none
  otherwise. The handler does return in this way for every stream of at most ten deltas
  that ends with EOF while the context stays alive.
\<close>

theorem streamStatePostHandler_aggregates:
  "(streamStatePostHandler ctxDone chunks ending state = (state', Returned out) \<longrightarrow>
      ending = EOF \<and> map Some out = chunks \<and>
      history state' = history state @ aggregated out \<and> length (aggregated out) \<le> 1) \<and>
   ((\<forall>n. \<not> ctxDone n) \<and> length deltas \<le> 10 \<longrightarrow>
      streamStatePostHandler ctxDone (map Some deltas) EOF state =
        (state\<lparr>history := history state @ aggregated deltas\<rparr>, Returned deltas))"
proof (rule conjI)
  show "streamStatePostHandler ctxDone chunks ending state = (state', Returned out) \<longrightarrow>
      ending = EOF \<and> map Some out = chunks \<and>
      history state' = history state @ aggregated out \<and> length (aggregated out) \<le> 1"
  proof (rule impI)
    assume r: "streamStatePostHandler ctxDone chunks ending state = (state', Returned out)"
    from streamPostLoop_returned [OF r [unfolded streamStatePostHandler_def]]
    obtain rest where "ending = EOF" and "out = [] @ rest" and "map Some rest = chunks"
      and "state' = state\<lparr>history := history state @ finish zeroMessage rest\<rparr>"
      by blast
    then show "ending = EOF \<and> map Some out = chunks \<and>
      history state' = history state @ aggregated out \<and> length (aggregated out) \<le> 1"
      by (simp add: finish_zero aggregated_def)
  qed
next
  show "(\<forall>n. \<not> ctxDone n) \<and> length deltas \<le> 10 \<longrightarrow>
      streamStatePostHandler ctxDone (map Some deltas) EOF state =
        (state\<lparr>history := history state @ aggregated deltas\<rparr>, Returned deltas)"
  proof (rule impI)
    assume a: "(\<forall>n. \<not> ctxDone n) \<and> length deltas \<le> 10"
    then have "streamPostLoop ctxDone 0 (map Some deltas) EOF zeroMessage [] state =
       (state\<lparr>history := history state @ finish zeroMessage deltas\<rparr>, Returned ([] @ deltas))"
      by (intro streamPostLoop_returns) (simp_all add: pipeCapacity_def)
    then show "streamStatePostHandler ctxDone (map Some deltas) EOF state =
        (state\<lparr>history := history state @ aggregated deltas\<rparr>, Returned deltas)"
      by (simp add: streamStatePostHandler_def finish_zero)
  qed
qed

theorem streamStatePostHandler_aggregates_witness:
  "length [\<lparr>Role = ''assistant'', Content = ''he'', MultiContent = [], ToolCalls = [],
             ToolCallID = []\<rparr>,
           \<lparr>Role = ''assistant'', Content = ''llo'', MultiContent = [], ToolCalls = [],
             ToolCallID = []\<rparr>] \<le> 10 \<and>
   streamStatePostHandler (\<lambda>n. False)
     [Some \<lparr>Role = ''assistant'', Content = ''he'', MultiContent = [], ToolCalls = [],
            ToolCallID = []\<rparr>,
      Some \<lparr>Role = ''assistant'', Content = ''llo'', MultiContent = [], ToolCalls = [],
            ToolCallID = []\<rparr>] EOF \<lparr>history = []\<rparr>
   = (\<lparr>history = [\<lparr>Role = ''assistant'', Content = ''hello'', MultiContent = [],
                     ToolCalls = [], ToolCallID = []\<rparr>]\<rparr>,
      Returned [\<lparr>Role = ''assistant'', Content = ''he'', MultiContent = [], ToolCalls = [],
                 ToolCallID = []\<rparr>,
                \<lparr>Role = ''assistant'', Content = ''llo'', MultiContent = [], ToolCalls = [],
                 ToolCallID = []\<rparr>])"
proof -
  let ?d1 = "\<lparr>Role = ''assistant'', Content = ''he'', MultiContent = [], ToolCalls = [],
             ToolCallID = []\<rparr>"
  let ?d2 = "\<lparr>Role = ''assistant'', Content = ''llo'', MultiContent = [], ToolCalls = [],
             ToolCallID = []\<rparr>"
  have agg: "aggregated [?d1, ?d2] =
      [\<lparr>Role = ''assistant'', Content = ''hello'', MultiContent = [], ToolCalls = [],
        ToolCallID = []\<rparr>]"
    by (simp add: aggregated_def assistantText_def assistantToolCalls_def schema_Assistant_def)
  have "streamStatePostHandler (\<lambda>n. False) (map Some [?d1, ?d2]) EOF \<lparr>history = []\<rparr> =
        (\<lparr>history = []\<rparr>\<lparr>history := history \<lparr>history = []\<rparr> @ aggregated [?d1, ?d2]\<rparr>,
         Returned [?d1, ?d2])"
    using streamStatePostHandler_aggregates
      [of "\<lambda>n. False" "[]" EOF "\<lparr>history = []\<rparr>" "\<lparr>history = []\<rparr>" "[]" "[?d1, ?d2]"]
    by simp
  then show ?thesis unfolding agg by simp
qed

lemma streamPostLoop_blocks:
  "\<forall>n. \<not> ctxDone n \<Longrightarrow> length piped \<le> pipeCapacity \<Longrightarrow>
   pipeCapacity < length piped + length deltas \<Longrightarrow>
   streamPostLoop ctxDone n (map Some deltas) ending f piped state = (state, Blocked)"
proof (induction deltas arbitrary: n f piped)
  case Nil
  then show ?case by simp
next
  case (Cons d deltas)
  show ?case
  proof (cases "length piped < pipeCapacity")
    case True
    then have "length (piped @ [d]) \<le> pipeCapacity" by simp
    moreover from Cons.prems(3) have "pipeCapacity < length (piped @ [d]) + length deltas"
      by simp
    ultimately have "streamPostLoop ctxDone (Suc n) (map Some deltas) ending (accumulate f d)
        (piped @ [d]) state = (state, Blocked)"
      using Cons.prems(1) by (intro Cons.IH)
    moreover from Cons.prems(1) have "\<not> ctxDone n" by (rule spec)
    ultimately show ?thesis using True by simp
  next
    case False
    moreover from Cons.prems(1) have "\<not> ctxDone n" by (rule spec)
    ultimately show ?thesis by simp
  qed
qed

text \<open>
  C5. The post-handler does not append the aggregated assistant message for every stream,
  nor forward every delta: it sends each delta into a pipe of capacity ten that nothing
  reads before the handler returns, so on every stream of more than ten deltas (the
  context alive) it waits forever in the eleventh \<^verbatim>\<open>Send\<close>, however the stream would
  end; the history is left as it was and no stream is handed downstream.
\<close>

theorem streamStatePostHandler_blocks_after_ten:
  "(\<forall>n. \<not> ctxDone n) \<and> 10 < length deltas \<longrightarrow>
     streamStatePostHandler ctxDone (map Some deltas) ending state = (state, Blocked)"
proof
  assume a: "(\<forall>n. \<not> ctxDone n) \<and> 10 < length deltas"
  then have "\<forall>n. \<not> ctxDone n" and "length ([] :: Message list) \<le> pipeCapacity"
    and "pipeCapacity < length ([] :: Message list) + length deltas"
    by (simp_all add: pipeCapacity_def)
  then have "streamPostLoop ctxDone 0 (map Some deltas) ending zeroMessage [] state
      = (state, Blocked)"
    by (rule streamPostLoop_blocks)
  then show "streamStatePostHandler ctxDone (map Some deltas) ending state = (state, Blocked)"
    by (simp add: streamStatePostHandler_def)
qed

theorem streamStatePostHandler_blocks_after_ten_witness:
  "10 < length (replicate 11 \<lparr>Role = ''assistant'', Content = ''a'', MultiContent = [],
                              ToolCalls = [], ToolCallID = []\<rparr>) \<and>
   streamStatePostHandler (\<lambda>n. False)
     (map Some (replicate 11 \<lparr>Role = ''assistant'', Content = ''a'', MultiContent = [],
                              ToolCalls = [], ToolCallID = []\<rparr>))
     EOF \<lparr>history = []\<rparr> = (\<lparr>history = []\<rparr>, Blocked)"
proof -
  let ?ds = "replicate 11 \<lparr>Role = ''assistant'', Content = ''a'', MultiContent = [],
                           ToolCalls = [], ToolCallID = []\<rparr>"
  have l: "10 < length ?ds" by simp
  have c: "\<forall>n. \<not> (\<lambda>n::nat. False) n" by simp
  from c l streamStatePostHandler_blocks_after_ten
    [of "\<lambda>n. False" ?ds EOF "\<lparr>history = []\<rparr>"]
  have "streamStatePostHandler (\<lambda>n. False) (map Some ?ds) EOF \<lparr>history = []\<rparr>
      = (\<lparr>history = []\<rparr>, Blocked)"
    by (simp only: simp_thms)
  with l show ?thesis by (rule conjI)
qed

subsection \<open>Sequence numbers and message ids in the memory store\<close>

lemma parseAgentID_no_colon:
  "CHR '':'' \<notin> set agentID \<Longrightarrow> parseAgentID agentID = (agentID, agentID)"
proof -
  assume "CHR '':'' \<notin> set agentID"
  then have "\<forall>j<length agentID. agentID ! j \<noteq> CHR '':''" by (metis nth_mem)
  then show ?thesis unfolding parseAgentID_def by (rule parseAgentIDLoop_no_colon)
qed

lemma int64_in_range: "- (2 ^ 63) \<le> x \<Longrightarrow> x < 2 ^ 63 \<Longrightarrow> int64 x = x"
  by (simp add: int64_def mod_pos_pos_trivial)

lemma ensureSession_messages:
  "ensureSession db faults sessionID deviceID agentID = Inr db1 \<Longrightarrow> messages db1 = messages db"
  by (auto simp: ensureSession_def querySession_def createSession_def
      split: option.splits sum.splits if_splits)

lemma ensureSession_noFaults:
  assumes "sessionQueryFault faults = None" and "sessionCreateFault faults = None"
  shows "\<exists>db1. ensureSession db faults sessionID deviceID agentID = Inr db1"
proof (cases "find (\<lambda>s. sSessionID s = sessionID) (sessions db)")
  case None
  then have "sessionID \<notin> sSessionID ` set (sessions db)"
    by (auto simp: find_None_iff)
  with None assms show ?thesis
    by (simp add: ensureSession_def querySession_def createSession_def newSession_def)
next
  case (Some a)
  with assms show ?thesis by (simp add: ensureSession_def querySession_def)
qed

lemma maxSequenceNum_messages:
  "messages db1 = messages db \<Longrightarrow> maxSequenceNum db1 sid = maxSequenceNum db sid"
  by (simp add: maxSequenceNum_def sessionSeqs_def)

lemma queryMaxSeq_messages:
  "messages db1 = messages db \<Longrightarrow> queryMaxSeq db1 fault sid = queryMaxSeq db fault sid"
  by (simp add: queryMaxSeq_def maxSequenceNum_def sessionSeqs_def)

lemma MessageID_newMessage: "MessageID (newMessage sid dev uuid k msg) = uuid"
  by (simp add: newMessage_def)

text \<open>What one call stores and what it returns.\<close>

lemma messages_AddMessage:
  "messages (snd (AddMessage db faults agentID msg uuid)) =
     (if fst (AddMessage db faults agentID msg uuid) = None
      then messages db @
        [newMessage (snd (parseAgentID agentID)) (fst (parseAgentID agentID)) uuid
           (queryMaxSeq db (maxQueryFault faults) (snd (parseAgentID agentID))) msg]
      else messages db)"
proof -
  obtain deviceID sessionID where p: "parseAgentID agentID = (deviceID, sessionID)"
    by (cases "parseAgentID agentID")
  show ?thesis
  proof (cases "ensureSession db faults sessionID deviceID agentID")
    case (Inl err)
    with p show ?thesis by (simp add: AddMessage_def)
  next
    case (Inr db1)
    then have m: "messages db1 = messages db" by (rule ensureSession_messages)
    have q: "queryMaxSeq db1 (maxQueryFault faults) sessionID =
             queryMaxSeq db (maxQueryFault faults) sessionID"
      using m by (rule queryMaxSeq_messages)
    show ?thesis
      using p Inr m
      by (simp add: AddMessage_def q createMessage_def MessageID_newMessage
          split: option.splits)
  qed
qed

lemma fst_AddMessage_noFaults:
  "fst (AddMessage db noFaults agentID msg uuid) =
     (if uuid \<in> MessageID ` set (messages db) then Some (FailedToCreateMessage UniqueViolation)
      else None)"
proof -
  obtain deviceID sessionID where p: "parseAgentID agentID = (deviceID, sessionID)"
    by (cases "parseAgentID agentID")
  have "sessionQueryFault noFaults = None" and "sessionCreateFault noFaults = None"
    by (simp_all add: noFaults_def)
  then have "\<exists>db1. ensureSession db noFaults sessionID deviceID agentID = Inr db1"
    by (rule ensureSession_noFaults)
  then obtain db1 where e: "ensureSession db noFaults sessionID deviceID agentID = Inr db1" ..
  then have m: "messages db1 = messages db" by (rule ensureSession_messages)
  have f: "messageCreateFault noFaults = None" by (simp add: noFaults_def)
  show ?thesis
    using p e m f
    by (simp add: AddMessage_def createMessage_def MessageID_newMessage)
qed


lemma Max_upto: "0 < n \<Longrightarrow> Max (set (map int [1..<Suc n])) = int n"
  by (rule Max_eqI) auto

lemma maxSequenceNum_contiguous:
  "contiguousFromOne (sessionSeqs db sid) \<Longrightarrow>
   maxSequenceNum db sid = int (length (sessionSeqs db sid))"
proof (cases "sessionSeqs db sid = []")
  case True
  then show ?thesis by (simp add: maxSequenceNum_def)
next
  case False
  assume c: "contiguousFromOne (sessionSeqs db sid)"
  from False have "0 < length (sessionSeqs db sid)" by simp
  then have "Max (set (map int [1..<Suc (length (sessionSeqs db sid))])) =
             int (length (sessionSeqs db sid))" by (rule Max_upto)
  with c False show ?thesis by (simp add: maxSequenceNum_def contiguousFromOne_def)
qed

lemma contiguousFromOne_snoc:
  "contiguousFromOne seqs \<Longrightarrow> contiguousFromOne (seqs @ [int (length seqs) + 1])"
  by (simp add: contiguousFromOne_def)

lemma length_sessionSeqs: "length (sessionSeqs db sid) \<le> length (messages db)"
  by (simp add: sessionSeqs_def)

lemma length_messages_AddMessage:
  "length (messages (snd (AddMessage db faults agentID msg uuid))) \<le> Suc (length (messages db))"
  by (simp add: messages_AddMessage)

lemma AddMessage_keeps_contiguous:
  assumes inv: "\<forall>sid. contiguousFromOne (sessionSeqs db sid)"
    and q: "\<not> maxQueryFault faults"
    and small: "int (length (messages db)) < 2 ^ 63 - 1"
  shows "\<forall>sid. contiguousFromOne (sessionSeqs (snd (AddMessage db faults agentID msg uuid)) sid)"
proof
  fix sid
  let ?s = "snd (parseAgentID agentID)"
  let ?R = "AddMessage db faults agentID msg uuid"
  show "contiguousFromOne (sessionSeqs (snd ?R) sid)"
  proof (cases "fst ?R = None")
    case False
    then have "messages (snd ?R) = messages db" by (simp add: messages_AddMessage)
    then have "sessionSeqs (snd ?R) sid = sessionSeqs db sid" by (simp add: sessionSeqs_def)
    with inv show ?thesis by simp
  next
    case True
    let ?n = "int (length (sessionSeqs db ?s))"
    have "?n \<le> int (length (messages db))" using length_sessionSeqs [of db ?s] by simp
    with small have r: "- (2 ^ 63) \<le> ?n + 1" "?n + 1 < 2 ^ 63" by simp_all
    have mx: "queryMaxSeq db (maxQueryFault faults) ?s = ?n"
      using q inv by (simp add: queryMaxSeq_def maxSequenceNum_contiguous)
    have new: "messages (snd ?R) = messages db @
        [newMessage ?s (fst (parseAgentID agentID)) uuid ?n msg]"
      using True by (simp add: messages_AddMessage mx)
    show ?thesis
    proof (cases "sid = ?s")
      case True
      have "sessionSeqs (snd ?R) ?s = sessionSeqs db ?s @ [int64 (?n + 1)]"
        by (simp add: sessionSeqs_def new newMessage_def)
      also have "\<dots> = sessionSeqs db ?s @ [?n + 1]"
        using r by (simp only: int64_in_range)
      finally show ?thesis using inv True by (simp only: contiguousFromOne_snoc)
    next
      case False
      then have "sessionSeqs (snd ?R) sid = sessionSeqs db sid"
        by (simp add: sessionSeqs_def new newMessage_def)
      with inv show ?thesis by simp
    qed
  qed
qed

lemma AddMessages_keeps_contiguous:
  "\<forall>sid. contiguousFromOne (sessionSeqs db sid) \<Longrightarrow>
   \<forall>(agentID, msg, uuid, faults) \<in> set calls. \<not> maxQueryFault faults \<Longrightarrow>
   int (length (messages db)) + int (length calls) < 2 ^ 63 \<Longrightarrow>
   \<forall>sid. contiguousFromOne (sessionSeqs (AddMessages db calls) sid)"
proof (induction db calls rule: AddMessages.induct)
  case (1 db)
  then show ?case by simp
next
  case (2 db agentID msg uuid faults calls)
  let ?db' = "snd (AddMessage db faults agentID msg uuid)"
  from "2.prems"(2) have q: "\<not> maxQueryFault faults"
    and rest: "\<forall>(agentID, msg, uuid, faults) \<in> set calls. \<not> maxQueryFault faults"
    by simp_all
  from "2.prems"(3) have small: "int (length (messages db)) < 2 ^ 63 - 1" by simp
  have inv': "\<forall>sid. contiguousFromOne (sessionSeqs ?db' sid)"
    using "2.prems"(1) q small by (rule AddMessage_keeps_contiguous)
  have "int (length (messages ?db')) \<le> int (length (messages db)) + 1"
    using length_messages_AddMessage [of db faults agentID msg uuid] by simp
  with "2.prems"(3) have "int (length (messages ?db')) + int (length calls) < 2 ^ 63" by simp
  with inv' rest have "\<forall>sid. contiguousFromOne (sessionSeqs (AddMessages ?db' calls) sid)"
    by (rule "2.IH")
  then show ?case by simp
qed

lemma emptyDB_contiguous: "contiguousFromOne (sessionSeqs emptyDB sid)"
  by (simp add: contiguousFromOne_def sessionSeqs_def emptyDB_def)

text \<open>
  C4, as stated, fails in its last part: nothing serializes the appends of a session.
  Two calls for the same session whose statements all succeed, the second reading the
  highest sequence number before the first has inserted its message, store two messages
  with sequence number 1.
\<close>

theorem interleaved_AddMessage_duplicates_sequence_number:
  "map SequenceNum (messages (fst (interleave
     [(''dev1'', \<lparr>Role = ''user'', Content = ''hi'', MultiContent = [], ToolCalls = [],
                   ToolCallID = []\<rparr>, ''uuid-1'', noFaults),
      (''dev1'', \<lparr>Role = ''assistant'', Content = ''hello'', MultiContent = [], ToolCalls = [],
                   ToolCallID = []\<rparr>, ''uuid-2'', noFaults)]
     [RunSessionQuery 0, RunSessionCreate 0, RunMaxQuery 0,
      RunSessionQuery 1, RunMaxQuery 1, RunMessageCreate 0, RunMessageCreate 1]
     (emptyDB, \<lambda>i. NotStarted)))) = [1, 1]"
proof -
  have p: "parseAgentID ''dev1'' = (''dev1'', ''dev1'')"
    by (rule parseAgentID_no_colon) simp
  have i: "int64 1 = 1" by (rule int64_in_range) simp_all
  show ?thesis
    by (simp add: p i querySession_def createSession_def createMessage_def newSession_def
        queryMaxSeq_def maxSequenceNum_def sessionSeqs_def newMessage_def emptyDB_def
        noFaults_def)
qed

text \<open>
  C4, as amended. After fewer than \<open>2^63\<close> calls of \<^verbatim>\<open>AddMessage\<close> made one after the
  other on an empty store, none of whose highest-sequence-number queries failed, the
  sequence numbers stored for every session are \<open>1, 2, ..., n\<close> in insertion order; and
  each call that returns nil and whose query succeeded has appended one message whose
  sequence number is the highest one stored for its session plus one (below the end of
  the \<^verbatim>\<open>int64\<close> range), and 1 when the session has none.
\<close>

theorem AddMessage_sequence_numbers:
  "((\<forall>(agentID, msg, uuid, faults) \<in> set calls. \<not> maxQueryFault faults) \<and>
    length calls < 2 ^ 63 \<longrightarrow>
      contiguousFromOne (sessionSeqs (AddMessages emptyDB calls) sid)) \<and>
   (fst (AddMessage db faults agentID msg uuid) = None \<and> \<not> maxQueryFault faults \<and>
    (\<forall>x \<in> set (sessionSeqs db (snd (parseAgentID agentID))). - (2 ^ 63) \<le> x \<and> x < 2 ^ 63 - 1)
    \<longrightarrow>
      (\<exists>row. messages (snd (AddMessage db faults agentID msg uuid)) = messages db @ [row] \<and>
         SessionID row = snd (parseAgentID agentID) \<and>
         SequenceNum row =
           (if sessionSeqs db (snd (parseAgentID agentID)) = [] then 1
            else Max (set (sessionSeqs db (snd (parseAgentID agentID)))) + 1)))"
proof (intro conjI impI)
  assume a: "(\<forall>(agentID, msg, uuid, faults) \<in> set calls. \<not> maxQueryFault faults) \<and>
    length calls < 2 ^ 63"
  then have q: "\<forall>(agentID, msg, uuid, faults) \<in> set calls. \<not> maxQueryFault faults"
    and l: "length calls < 2 ^ 63" by simp_all
  from l have "int (length calls) < 2 ^ 63" by simp
  then have b: "int (length (messages emptyDB)) + int (length calls) < 2 ^ 63"
    by (simp add: emptyDB_def)
  have e: "\<forall>sid. contiguousFromOne (sessionSeqs emptyDB sid)"
    using emptyDB_contiguous by (rule allI)
  from e q b have "\<forall>sid. contiguousFromOne (sessionSeqs (AddMessages emptyDB calls) sid)"
    by (rule AddMessages_keeps_contiguous)
  then show "contiguousFromOne (sessionSeqs (AddMessages emptyDB calls) sid)" by (rule spec)
next
  let ?s = "snd (parseAgentID agentID)"
  let ?seqs = "sessionSeqs db ?s"
  assume a: "fst (AddMessage db faults agentID msg uuid) = None \<and> \<not> maxQueryFault faults \<and>
    (\<forall>x \<in> set ?seqs. - (2 ^ 63) \<le> x \<and> x < 2 ^ 63 - 1)"
  let ?m = "if ?seqs = [] then 0 else Max (set ?seqs)"
  have range: "- (2 ^ 63) \<le> ?m + 1 \<and> ?m + 1 < 2 ^ 63"
  proof (cases "?seqs = []")
    case True
    then show ?thesis by simp
  next
    case False
    then have "Max (set ?seqs) \<in> set ?seqs" by (intro Max_in) simp_all
    moreover from a have "\<forall>x \<in> set ?seqs. - (2 ^ 63) \<le> x \<and> x < 2 ^ 63 - 1" by simp
    ultimately have "- (2 ^ 63) \<le> Max (set ?seqs) \<and> Max (set ?seqs) < 2 ^ 63 - 1" by (rule bspec [rotated])
    with False show ?thesis by simp
  qed
  then have w: "int64 (?m + 1) = ?m + 1" by (intro int64_in_range) simp_all
  have q: "queryMaxSeq db (maxQueryFault faults) ?s = ?m"
    using a by (simp add: queryMaxSeq_def maxSequenceNum_def)
  let ?row = "newMessage ?s (fst (parseAgentID agentID)) uuid ?m msg"
  from a have f: "fst (AddMessage db faults agentID msg uuid) = None" by simp
  have "messages (snd (AddMessage db faults agentID msg uuid)) = messages db @ [?row]"
    by (simp only: messages_AddMessage f q if_True simp_thms)
  moreover have "SessionID ?row = ?s" by (simp add: newMessage_def)
  moreover have "SequenceNum ?row = (if ?seqs = [] then 1 else Max (set ?seqs) + 1)"
    using w by (simp add: newMessage_def)
  ultimately show "\<exists>row. messages (snd (AddMessage db faults agentID msg uuid)) = messages db @ [row] \<and>
         SessionID row = ?s \<and>
         SequenceNum row = (if ?seqs = [] then 1 else Max (set ?seqs) + 1)"
    by (intro exI [of _ ?row] conjI)
qed

theorem AddMessage_sequence_numbers_witness:
  "sessionSeqs (AddMessages emptyDB
     [(''dev1'', \<lparr>Role = ''user'', Content = ''hi'', MultiContent = [], ToolCalls = [],
                   ToolCallID = []\<rparr>, ''uuid-1'', noFaults),
      (''dev1'', \<lparr>Role = ''assistant'', Content = ''hello'', MultiContent = [], ToolCalls = [],
                   ToolCallID = []\<rparr>, ''uuid-2'', noFaults)]) ''dev1'' = [1, 2] \<and>
   fst (AddMessage emptyDB noFaults ''dev1''
          \<lparr>Role = ''user'', Content = ''hi'', MultiContent = [], ToolCalls = [],
            ToolCallID = []\<rparr> ''uuid-1'') = None \<and>
   (\<exists>row. messages (snd (AddMessage emptyDB noFaults ''dev1''
          \<lparr>Role = ''user'', Content = ''hi'', MultiContent = [], ToolCalls = [],
            ToolCallID = []\<rparr> ''uuid-1'')) = [row] \<and> SequenceNum row = 1)"
proof -
  let ?u = "\<lparr>Role = ''user'', Content = ''hi'', MultiContent = [], ToolCalls = [],
            ToolCallID = []\<rparr>"
  let ?a = "\<lparr>Role = ''assistant'', Content = ''hello'', MultiContent = [], ToolCalls = [],
            ToolCallID = []\<rparr>"
  let ?calls = "[(''dev1'', ?u, ''uuid-1'', noFaults), (''dev1'', ?a, ''uuid-2'', noFaults)]"
  note t = AddMessage_sequence_numbers
    [of ?calls "''dev1''" emptyDB noFaults "''dev1''" ?u "''uuid-1''"]
  have nf: "\<not> maxQueryFault noFaults" by (simp add: noFaults_def)
  have p: "parseAgentID ''dev1'' = (''dev1'', ''dev1'')"
    by (rule parseAgentID_no_colon) simp
  have q: "\<forall>(agentID, msg, uuid, faults) \<in> set ?calls. \<not> maxQueryFault faults"
    using nf by simp
  have l: "length ?calls < 2 ^ 63" by simp
  have i: "int64 1 = 1" "int64 2 = 2" by (simp_all add: int64_def)
  have sq: "\<And>db. queryMaxSeq db (maxQueryFault noFaults) ''dev1'' = maxSequenceNum db ''dev1''"
    by (simp add: queryMaxSeq_def noFaults_def)
  have len: "length (sessionSeqs (AddMessages emptyDB ?calls) ''dev1'') = 2"
    by (simp add: sessionSeqs_def messages_AddMessage fst_AddMessage_noFaults newMessage_def
        emptyDB_def p)
  from t q l have "contiguousFromOne (sessionSeqs (AddMessages emptyDB ?calls) ''dev1'')"
    by (simp only: simp_thms)
  then have "sessionSeqs (AddMessages emptyDB ?calls) ''dev1'' = map int [1..<Suc 2]"
    unfolding contiguousFromOne_def len .
  then have s: "sessionSeqs (AddMessages emptyDB ?calls) ''dev1'' = [1, 2]"
    by (simp add: upt_rec)
  have f: "fst (AddMessage emptyDB noFaults ''dev1'' ?u ''uuid-1'') = None"
    by (simp add: fst_AddMessage_noFaults emptyDB_def)
  have e: "sessionSeqs emptyDB (snd (parseAgentID ''dev1'')) = []"
    by (simp add: sessionSeqs_def emptyDB_def)
  have m: "messages emptyDB = []" by (simp add: emptyDB_def)
  have b: "\<forall>x \<in> set (sessionSeqs emptyDB (snd (parseAgentID ''dev1''))).
             - (2 ^ 63) \<le> x \<and> x < 2 ^ 63 - 1"
    unfolding e by simp
  from t f nf b have "\<exists>row. messages (snd (AddMessage emptyDB noFaults ''dev1'' ?u ''uuid-1''))
        = messages emptyDB @ [row] \<and> SessionID row = snd (parseAgentID ''dev1'') \<and>
      SequenceNum row =
        (if sessionSeqs emptyDB (snd (parseAgentID ''dev1'')) = [] then 1
         else Max (set (sessionSeqs emptyDB (snd (parseAgentID ''dev1'')))) + 1)"
    by (simp only: simp_thms)
  then have r: "\<exists>row. messages (snd (AddMessage emptyDB noFaults ''dev1'' ?u ''uuid-1'')) = [row] \<and>
      SequenceNum row = 1"
    unfolding e m by auto
  from s f r show ?thesis by (intro conjI)
qed

text \<open>C7, as stated, fails: appending the same message twice stores it twice.\<close>

theorem AddMessage_twice_stores_twice:
  "map rowContent (messages (AddMessages emptyDB
     [(''dev1'', \<lparr>Role = ''user'', Content = ''hi'', MultiContent = [], ToolCalls = [],
                   ToolCallID = []\<rparr>, ''uuid-1'', noFaults),
      (''dev1'', \<lparr>Role = ''user'', Content = ''hi'', MultiContent = [], ToolCalls = [],
                   ToolCallID = []\<rparr>, ''uuid-2'', noFaults)])) = [''hi'', ''hi''] \<and>
   map rowContent (messages (AddMessages emptyDB
     [(''dev1'', \<lparr>Role = ''user'', Content = ''hi'', MultiContent = [], ToolCalls = [],
                   ToolCallID = []\<rparr>, ''uuid-1'', noFaults)])) = [''hi'']"
  by (simp add: messages_AddMessage fst_AddMessage_noFaults newMessage_def emptyDB_def)

text \<open>
  C7, as amended. \<^verbatim>\<open>AddMessage\<close> does not recognise a message it has stored before: the
  message carries no id, and every call generates a new message id. A call that returns
  nil has stored exactly one new row, under the id generated in that call and with the
  role and content of the message; a call that returns an error has stored no message.
  A call that runs alone and whose statements the database does not fail returns nil
  unless the generated id is already stored, and is refused by the unique index on the
  message id when it is.
\<close>

theorem AddMessage_inserts_on_every_call:
  "(fst (AddMessage db faults agentID msg uuid) = None \<longrightarrow>
      (\<exists>row. messages (snd (AddMessage db faults agentID msg uuid)) = messages db @ [row] \<and>
         MessageID row = uuid \<and> rowRole row = Role msg \<and> rowContent row = Content msg \<and>
         SessionID row = snd (parseAgentID agentID))) \<and>
   (fst (AddMessage db faults agentID msg uuid) \<noteq> None \<longrightarrow>
      messages (snd (AddMessage db faults agentID msg uuid)) = messages db) \<and>
   fst (AddMessage db noFaults agentID msg uuid) =
     (if uuid \<in> MessageID ` set (messages db)
      then Some (FailedToCreateMessage UniqueViolation) else None)"
  by (simp add: fst_AddMessage_noFaults messages_AddMessage newMessage_def)

theorem AddMessage_inserts_on_every_call_witness:
  "fst (AddMessage emptyDB noFaults ''dev1''
          \<lparr>Role = ''user'', Content = ''hi'', MultiContent = [], ToolCalls = [],
            ToolCallID = []\<rparr> ''uuid-1'') = None \<and>
   map rowContent (messages (snd (AddMessage emptyDB noFaults ''dev1''
          \<lparr>Role = ''user'', Content = ''hi'', MultiContent = [], ToolCalls = [],
            ToolCallID = []\<rparr> ''uuid-1''))) = [''hi''] \<and>
   fst (AddMessage emptyDB
          \<lparr>sessionQueryFault = Some DatabaseError, sessionCreateFault = None,
            maxQueryFault = False, messageCreateFault = None\<rparr> ''dev1''
          \<lparr>Role = ''user'', Content = ''hi'', MultiContent = [], ToolCalls = [],
            ToolCallID = []\<rparr> ''uuid-1'')
     = Some (FailedToEnsureSession (FailedToQuerySession DatabaseError)) \<and>
   messages (snd (AddMessage emptyDB
          \<lparr>sessionQueryFault = Some DatabaseError, sessionCreateFault = None,
            maxQueryFault = False, messageCreateFault = None\<rparr> ''dev1''
          \<lparr>Role = ''user'', Content = ''hi'', MultiContent = [], ToolCalls = [],
            ToolCallID = []\<rparr> ''uuid-1'')) = []"
proof -
  let ?u = "\<lparr>Role = ''user'', Content = ''hi'', MultiContent = [], ToolCalls = [],
            ToolCallID = []\<rparr>"
  let ?f = "\<lparr>sessionQueryFault = Some DatabaseError, sessionCreateFault = None,
            maxQueryFault = False, messageCreateFault = None\<rparr>"
  note t1 = AddMessage_inserts_on_every_call [of emptyDB noFaults "''dev1''" ?u "''uuid-1''"]
  note t2 = AddMessage_inserts_on_every_call [of emptyDB ?f "''dev1''" ?u "''uuid-1''"]
  have m: "messages emptyDB = []" by (simp add: emptyDB_def)
  from t1 have ok: "fst (AddMessage emptyDB noFaults ''dev1'' ?u ''uuid-1'') = None"
    by (simp add: m)
  with t1 obtain row where
    "messages (snd (AddMessage emptyDB noFaults ''dev1'' ?u ''uuid-1'')) = messages emptyDB @ [row]"
    and "rowContent row = Content ?u"
    by auto
  then have c: "map rowContent (messages (snd (AddMessage emptyDB noFaults ''dev1'' ?u ''uuid-1'')))
      = [''hi'']"
    by (simp add: m)
  have p: "parseAgentID ''dev1'' = (''dev1'', ''dev1'')"
    by (rule parseAgentID_no_colon) simp
  have e: "fst (AddMessage emptyDB ?f ''dev1'' ?u ''uuid-1'')
      = Some (FailedToEnsureSession (FailedToQuerySession DatabaseError))"
    by (simp add: AddMessage_def p ensureSession_def querySession_def)
  then have "fst (AddMessage emptyDB ?f ''dev1'' ?u ''uuid-1'') \<noteq> None" by simp
  with t2 have "messages (snd (AddMessage emptyDB ?f ''dev1'' ?u ''uuid-1'')) = messages emptyDB"
    by (simp only: simp_thms)
  then have n: "messages (snd (AddMessage emptyDB ?f ''dev1'' ?u ''uuid-1'')) = []"
    by (simp add: m)
  from ok c e n show ?thesis by (intro conjI)
qed

text \<open>
  When the first two appends of a session overlap, both may find no session; the one
  that creates the session second violates the unique index on the session id, returns
  that error and stores no message.
\<close>

lemma overlapping_first_appends_lose_a_message:
  "interleave
     [(''dev1'', \<lparr>Role = ''user'', Content = ''hi'', MultiContent = [], ToolCalls = [],
                   ToolCallID = []\<rparr>, ''uuid-1'', noFaults),
      (''dev1'', \<lparr>Role = ''assistant'', Content = ''hello'', MultiContent = [], ToolCalls = [],
                   ToolCallID = []\<rparr>, ''uuid-2'', noFaults)]
     [RunSessionQuery 0, RunSessionQuery 1, RunSessionCreate 0, RunSessionCreate 1,
      RunMaxQuery 0, RunMaxQuery 1, RunMessageCreate 0, RunMessageCreate 1]
     (emptyDB, \<lambda>i. NotStarted)
   = (\<lparr>sessions = [newSession ''dev1'' ''dev1'' ''dev1''],
       messages = [newMessage ''dev1'' ''dev1'' ''uuid-1'' 0
                     \<lparr>Role = ''user'', Content = ''hi'', MultiContent = [], ToolCalls = [],
                       ToolCallID = []\<rparr>]\<rparr>,
      (\<lambda>i. NotStarted)
        (0 := Ended None,
         1 := Ended (Some (FailedToEnsureSession (FailedToCreateSession UniqueViolation)))))"
proof -
  have p: "parseAgentID ''dev1'' = (''dev1'', ''dev1'')"
    by (rule parseAgentID_no_colon) simp
  show ?thesis
    by (simp add: p querySession_def createSession_def createMessage_def newSession_def
        queryMaxSeq_def maxSequenceNum_def sessionSeqs_def newMessage_def emptyDB_def
        noFaults_def fun_upd_twist)
qed

text \<open>A call whose four statements run with nothing in between is \<^verbatim>\<open>AddMessage\<close>.\<close>

lemma interleave_alone_is_AddMessage:
  assumes "i < length calls" and "calls ! i = (agentID, msg, uuid, faults)"
    and "prog i = NotStarted"
  shows "\<exists>prog'. interleave calls
            [RunSessionQuery i, RunSessionCreate i, RunMaxQuery i, RunMessageCreate i] (db, prog)
          = (snd (AddMessage db faults agentID msg uuid), prog') \<and>
          prog' i = Ended (fst (AddMessage db faults agentID msg uuid))"
proof -
  obtain deviceID sessionID where p: "parseAgentID agentID = (deviceID, sessionID)"
    by (cases "parseAgentID agentID")
  show ?thesis
    using assms p
    by (auto simp: AddMessage_def ensureSession_def querySession_def createSession_def
        createMessage_def split: option.splits sum.splits if_splits)
qed

end
